theory Spec2Isabelle
  imports Complex_Main "HOL-Library.Log_Nat"
begin

section \<open>Python values used by utils.py\<close>

subsection \<open>Exceptions\<close>

text \<open>
  Every call that can raise returns \<open>exn + 'a\<close>: \<open>Inl\<close> carries the exception,
  \<open>Inr\<close> the value. An exception that is not caught aborts the calling function with the
  same exception.
\<close>

datatype exn = IndexError | ValueError | OSError | FileNotFoundError | Exception string

subsection \<open>Floats\<close>

text \<open>
  Python and numpy floats are IEEE 754 binary64 numbers. A finite float is a real number
  with a 53-bit significand, and \<open>+\<close>, \<open>-\<close>, \<open>*\<close>, \<open>/\<close> return the exact result
  rounded to the nearest such number, ties to the even significand. \<open>float64\<close> is that
  rounding. The exponent range is left unbounded: utils.py only divides counts by 100, 300
  and 400, multiplies by 100 and adds a few such quotients, which neither overflows nor
  reaches the subnormal range.
\<close>

definition ilog2 :: "real \<Rightarrow> int" where
  \<comment> \<open>the exponent \<open>e\<close> with \<open>2^e \<le> x < 2^(e+1)\<close>, for \<open>0 < x\<close>\<close>
  "ilog2 x = (if 1 \<le> x then bitlen \<lfloor>x\<rfloor> - 1 else - bitlen (\<lceil>1 / x\<rceil> - 1))"

definition round_even :: "real \<Rightarrow> int" where
  "round_even x =
     (let f = \<lfloor>x\<rfloor>; d = x - of_int f
      in if d < 1 / 2 then f else if 1 / 2 < d then f + 1 else if even f then f else f + 1)"

definition float64 :: "real \<Rightarrow> real" where
  "float64 x =
     (if x = 0 then 0
      else let u = power_int 2 (ilog2 \<bar>x\<bar> - 52) in of_int (round_even (x / u)) * u)"

definition float_add :: "real \<Rightarrow> real \<Rightarrow> real" where
  "float_add x y = float64 (x + y)"

definition float_sub :: "real \<Rightarrow> real \<Rightarrow> real" where
  "float_sub x y = float64 (x - y)"

definition float_mul :: "real \<Rightarrow> real \<Rightarrow> real" where
  "float_mul x y = float64 (x * y)"

definition truediv :: "real \<Rightarrow> real \<Rightarrow> real" where
  \<comment> \<open>\<open>x / y\<close> for a non-zero divisor; utils.py only divides by the constants 100, 300, 400\<close>
  "truediv x y = float64 (x / y)"

definition float_of_int :: "int \<Rightarrow> real" where
  \<comment> \<open>the conversion of an integer operand to float before a float operation\<close>
  "float_of_int n = float64 (of_int n)"

definition py_int :: "real \<Rightarrow> int" where
  \<comment> \<open>\<open>int(x)\<close> of a float truncates towards zero\<close>
  "py_int x = (if 0 \<le> x then \<lfloor>x\<rfloor> else \<lceil>x\<rceil>)"

subsection \<open>Strings\<close>

fun str_nat :: "nat \<Rightarrow> string" where
  \<comment> \<open>\<open>str(n)\<close>, also the \<open>{n}\<close> of an f-string, for a non-negative integer\<close>
  "str_nat n =
     (if n < 10 then [''0123456789'' ! n]
      else str_nat (n div 10) @ [''0123456789'' ! (n mod 10)])"

definition endswith :: "string \<Rightarrow> string \<Rightarrow> bool" where
  "endswith s suffix =
     (length suffix \<le> length s \<and> drop (length s - length suffix) s = suffix)"

subsection \<open>numpy arrays\<close>

text \<open>
  An array is its shape and its items. Reading outside the shape raises \<open>IndexError\<close>;
  the model never looks at \<open>item2\<close> or \<open>item4\<close> outside the shape.
\<close>

record 'a ndarray2 =
  shape2 :: "nat \<times> nat"
  item2 :: "nat \<Rightarrow> nat \<Rightarrow> 'a"

record 'a ndarray4 =
  shape4 :: "nat \<times> nat \<times> nat \<times> nat"
  item4 :: "nat \<Rightarrow> nat \<Rightarrow> nat \<Rightarrow> nat \<Rightarrow> 'a"

definition array2 :: "'a list list \<Rightarrow> 'a ndarray2" where
  \<comment> \<open>\<open>np.array(rows)\<close> of a rectangular nested list\<close>
  "array2 rows =
     \<lparr>shape2 = (length rows, (case rows of [] \<Rightarrow> 0 | r # _ \<Rightarrow> length r)),
      item2 = (\<lambda>i j. rows ! i ! j)\<rparr>"

definition getitem2 :: "'a ndarray2 \<Rightarrow> nat \<Rightarrow> nat \<Rightarrow> exn + 'a" where
  \<comment> \<open>\<open>a[i][j]\<close> with non-negative indices: \<open>a[i]\<close> is row \<open>i\<close>, then its item \<open>j\<close>\<close>
  "getitem2 a i j =
     (if i < fst (shape2 a) then
        (if j < snd (shape2 a) then Inr (item2 a i j) else Inl IndexError)
      else Inl IndexError)"

definition slice_last2 :: "'a ndarray4 \<Rightarrow> nat \<Rightarrow> nat \<Rightarrow> exn + 'a ndarray2" where
  \<comment> \<open>\<open>a[:, :, i, j]\<close> with non-negative indices\<close>
  "slice_last2 a i j =
     (case shape4 a of (n0, n1, n2, n3) \<Rightarrow>
        if i < n2 \<and> j < n3
        then Inr \<lparr>shape2 = (n0, n1), item2 = (\<lambda>r c. item4 a r c i j)\<rparr>
        else Inl IndexError)"

definition the_slice :: "'a ndarray4 \<Rightarrow> nat \<Rightarrow> nat \<Rightarrow> 'a ndarray2" where
  \<comment> \<open>the array that \<open>a[:, :, i, j]\<close> is when it does not raise\<close>
  "the_slice a i j =
     \<lparr>shape2 = (fst (shape4 a), fst (snd (shape4 a))), item2 = (\<lambda>r c. item4 a r c i j)\<rparr>"

definition hstack :: "'a ndarray2 \<Rightarrow> exn + 'a list" where
  \<comment> \<open>\<open>list(np.hstack(a))\<close> of a 2-D array: numpy iterates over the rows of \<open>a\<close> and
      concatenates them; with no row there is nothing to concatenate and it raises\<close>
  "hstack a =
     (case shape2 a of (rows, cols) \<Rightarrow>
        if rows = 0 then Inl ValueError
        else Inr (concat (map (\<lambda>r. map (item2 a r) [0..<cols]) [0..<rows])))"

section \<open>The collaborators of utils.py\<close>

text \<open>
  Pillow, numpy, scikit-image and the file system are not part of the repository. The
  functions of utils.py are modelled over any behaviour of these calls: each is a field
  of the environment, and each may raise.
\<close>

record DirEntry =
  entry_path :: string
  entry_is_file :: bool

record ('img, 'arr) env =
  Image_open :: "string option \<Rightarrow> exn + 'img"
  ImageOps_equalize :: "'img \<Rightarrow> exn + 'img"
  Image_convert :: "'img \<Rightarrow> string \<Rightarrow> exn + 'img"
  Image_quantize :: "'img \<Rightarrow> nat \<Rightarrow> exn + 'img"
  Image_resize :: "'img \<Rightarrow> nat \<times> nat \<Rightarrow> exn + 'img"
  np_array_uint8 :: "'img \<Rightarrow> exn + 'arr"
  graycomatrix :: "'arr \<Rightarrow> nat list \<Rightarrow> real list \<Rightarrow> nat \<Rightarrow> exn + nat ndarray4"
  graycoprops :: "nat ndarray4 \<Rightarrow> string \<Rightarrow> exn + real ndarray2"
  shannon_entropy :: "nat ndarray2 \<Rightarrow> real"
  os_scandir :: "string \<Rightarrow> exn + DirEntry list"

text \<open>
  What scikit-image documents about shapes: \<open>graycomatrix\<close> returns an array of shape
  (levels, levels, number of distances, number of angles), and \<open>graycoprops\<close> returns one
  value per distance and angle of the matrix it is given.
\<close>

definition skimage_shapes :: "('img, 'arr) env \<Rightarrow> bool" where
  "skimage_shapes L \<longleftrightarrow>
     (\<forall>a ds angles levels g. graycomatrix L a ds angles levels = Inr g \<longrightarrow>
        shape4 g = (levels, levels, length ds, length angles)) \<and>
     (\<forall>g prop r. graycoprops L g prop = Inr r \<longrightarrow>
        shape2 r = (fst (snd (snd (shape4 g))), snd (snd (snd (shape4 g)))))"


section \<open>utils.py\<close>

subsection \<open>glcmEntropy\<close>

fun glcmEntropy_j ::
  "('img, 'arr) env \<Rightarrow> nat ndarray4 \<Rightarrow> nat \<Rightarrow> nat list \<Rightarrow> real list \<Rightarrow> exn + real list" where
  \<comment> \<open>\<open>for j in range(0, 4): entropy.append(shannon_entropy(glcm[:, :, i, j]))\<close>\<close>
  "glcmEntropy_j L glcm i [] entropy = Inr entropy"
| "glcmEntropy_j L glcm i (j # js) entropy =
     (case slice_last2 glcm i j of
        Inl e \<Rightarrow> Inl e
      | Inr s \<Rightarrow> glcmEntropy_j L glcm i js (entropy @ [shannon_entropy L s]))"

fun glcmEntropy_i ::
  "('img, 'arr) env \<Rightarrow> nat ndarray4 \<Rightarrow> nat list \<Rightarrow> real list \<Rightarrow> exn + real list" where
  \<comment> \<open>\<open>for i in range(0, 5): for j in range(0, 4): ...\<close>\<close>
  "glcmEntropy_i L glcm [] entropy = Inr entropy"
| "glcmEntropy_i L glcm (i # is) entropy =
     (case glcmEntropy_j L glcm i [0..<4] entropy of
        Inl e \<Rightarrow> Inl e
      | Inr entropy' \<Rightarrow> glcmEntropy_i L glcm is entropy')"

definition glcmEntropy :: "('img, 'arr) env \<Rightarrow> nat ndarray4 \<Rightarrow> exn + real list" where
  "glcmEntropy L glcm = glcmEntropy_i L glcm [0..<5] []"

subsection \<open>computeFeatures\<close>

definition computeFeatures :: "('img, 'arr) env \<Rightarrow> 'img \<Rightarrow> exn + real list" where
  "computeFeatures L img =
     (case np_array_uint8 L img of Inl e \<Rightarrow> Inl e | Inr numpyImage \<Rightarrow>
      (case graycomatrix L numpyImage [1, 2, 4, 8, 16] [0, pi / 4, pi / 2, 3 * pi / 4] 256 of
        Inl e \<Rightarrow> Inl e | Inr glcm \<Rightarrow>
      (case graycoprops L glcm ''contrast'' of Inl e \<Rightarrow> Inl e | Inr contrast \<Rightarrow>
      (case graycoprops L glcm ''homogeneity'' of Inl e \<Rightarrow> Inl e | Inr homogeneity \<Rightarrow>
      (case glcmEntropy L glcm of Inl e \<Rightarrow> Inl e | Inr entropy \<Rightarrow>
      (case hstack contrast of Inl e \<Rightarrow> Inl e | Inr numpyContrast \<Rightarrow>
      (case hstack homogeneity of Inl e \<Rightarrow> Inl e | Inr numpyHomogeneity \<Rightarrow>
      Inr (numpyContrast @ numpyHomogeneity @ entropy))))))))"

subsection \<open>featuresSizes\<close>

definition featuresSizes :: "('img, 'arr) env \<Rightarrow> 'img \<Rightarrow> exn + real list" where
  "featuresSizes L img =
     (case Image_resize L img (128, 128) of Inl e \<Rightarrow> Inl e | Inr size128Image \<Rightarrow>
      (case Image_resize L img (64, 64) of Inl e \<Rightarrow> Inl e | Inr size64Image \<Rightarrow>
      (case Image_resize L img (32, 32) of Inl e \<Rightarrow> Inl e | Inr size32Image \<Rightarrow>
      (case computeFeatures L size128Image of Inl e \<Rightarrow> Inl e | Inr size128features \<Rightarrow>
      (case computeFeatures L size64Image of Inl e \<Rightarrow> Inl e | Inr size64features \<Rightarrow>
      (case computeFeatures L size32Image of Inl e \<Rightarrow> Inl e | Inr size32features \<Rightarrow>
      Inr (size32features @ size64features @ size128features)))))))"

subsection \<open>featuresFile\<close>

definition featuresFile ::
  "('img, 'arr) env \<Rightarrow> string option \<Rightarrow> 'img option \<Rightarrow> exn + real list" where
  "featuresFile L path img =
     (case (case img of None \<Rightarrow> Image_open L path | Some im \<Rightarrow> Inr im) of
        Inl e \<Rightarrow> Inl e | Inr img' \<Rightarrow>
      (case ImageOps_equalize L img' of Inl e \<Rightarrow> Inl e | Inr equalizedImage \<Rightarrow>
      (case Image_convert L equalizedImage ''L'' of Inl e \<Rightarrow> Inl e | Inr grayImage \<Rightarrow>
      (case Image_quantize L grayImage 16 of Inl e \<Rightarrow> Inl e | Inr quant16Image \<Rightarrow>
      (case Image_quantize L grayImage 32 of Inl e \<Rightarrow> Inl e | Inr quant32Image \<Rightarrow>
      (case featuresSizes L quant16Image of Inl e \<Rightarrow> Inl e | Inr features16 \<Rightarrow>
      (case featuresSizes L quant32Image of Inl e \<Rightarrow> Inl e | Inr features32 \<Rightarrow>
      Inr (features16 @ features32))))))))"

subsection \<open>featuresFolder\<close>

text \<open>
  The screen is a sink: the model keeps the calls it received, oldest first.
\<close>

datatype screen_call =
  ProgressBar_value int
| Update_idletasks
| Text_set string

type_synonym screen = "screen_call list"

definition progress_percent :: "nat \<Rightarrow> int" where
  \<comment> \<open>\<open>int((imgCount/400)*100)\<close>\<close>
  "progress_percent imgCount = py_int (float_mul (truediv (of_nat imgCount) 400) 100)"

definition progress_text :: "nat \<Rightarrow> string" where
  \<comment> \<open>\<open>f"Generaring features...{imgCount}/400"\<close>\<close>
  "progress_text imgCount = ''Generaring features...'' @ str_nat imgCount @ ''/400''"

definition folder :: "nat \<Rightarrow> string" where
  \<comment> \<open>\<open>f"{url}{i}/"\<close> with \<open>url = "imgs/"\<close>\<close>
  "folder i = ''imgs/'' @ str_nat i @ ''/''"

text \<open>The three local variables of featuresFolder that the loops update.\<close>

record loader =
  features :: "real list list"
  types :: "nat list"
  imgCount :: nat

fun featuresFolder_files ::
  "('img, 'arr) env \<Rightarrow> nat \<Rightarrow> DirEntry list \<Rightarrow> loader \<Rightarrow> screen \<Rightarrow> screen \<times> (exn + loader)" where
  \<comment> \<open>the inner loop, over the entries of folder \<open>i\<close>\<close>
  "featuresFolder_files L i [] st scr = (scr, Inr st)"
| "featuresFolder_files L i (file # rest) st scr =
     (if endswith (entry_path file) ''.png'' \<and> entry_is_file file then
        (case featuresFile L (Some (entry_path file)) None of
           Inl e \<Rightarrow> (scr, Inl e)
         | Inr fv \<Rightarrow>
             let st' = \<lparr>features = features st @ [fv], types = types st @ [i],
                        imgCount = imgCount st + 1\<rparr>;
                 scr' = scr @ [ProgressBar_value (progress_percent (imgCount st')),
                               Update_idletasks,
                               Text_set (progress_text (imgCount st'))]
             in featuresFolder_files L i rest st' scr')
      else featuresFolder_files L i rest st scr)"

fun featuresFolder_dirs ::
  "('img, 'arr) env \<Rightarrow> nat list \<Rightarrow> loader \<Rightarrow> screen \<Rightarrow> screen \<times> (exn + loader)" where
  \<comment> \<open>the outer loop, \<open>for i in range(1, 5): for file in os.scandir(f"{url}{i}/")\<close>\<close>
  "featuresFolder_dirs L [] st scr = (scr, Inr st)"
| "featuresFolder_dirs L (i # is) st scr =
     (case os_scandir L (folder i) of
        Inl e \<Rightarrow> (scr, Inl e)
      | Inr files \<Rightarrow>
          (case featuresFolder_files L i files st scr of
             (scr', Inl e) \<Rightarrow> (scr', Inl e)
           | (scr', Inr st') \<Rightarrow> featuresFolder_dirs L is st' scr'))"

definition featuresFolder ::
  "('img, 'arr) env \<Rightarrow> screen \<Rightarrow> screen \<times> (exn + real list list \<times> nat list)" where
  "featuresFolder L screen =
     (case featuresFolder_dirs L [1..<5] \<lparr>features = [], types = [], imgCount = 0\<rparr> screen of
        (screen', Inl e) \<Rightarrow> (screen', Inl e)
      | (screen', Inr st) \<Rightarrow> (screen', Inr (features st, types st)))"

subsection \<open>computeMetrics\<close>

fun meanSensibility_loop :: "int ndarray2 \<Rightarrow> nat list \<Rightarrow> real \<Rightarrow> exn + real" where
  \<comment> \<open>\<open>for i in range(0, 3): meanSensibility += confusion[i][i] / 100\<close>\<close>
  "meanSensibility_loop confusion [] meanSensibility = Inr meanSensibility"
| "meanSensibility_loop confusion (i # is) meanSensibility =
     (case getitem2 confusion i i of
        Inl e \<Rightarrow> Inl e
      | Inr c \<Rightarrow>
          meanSensibility_loop confusion is
            (float_add meanSensibility (truediv (float_of_int c) 100)))"

text \<open>The variable \<open>sum\<close> of the source is \<open>sum_acc\<close> here.\<close>

fun sum_loop_j :: "int ndarray2 \<Rightarrow> nat \<Rightarrow> nat list \<Rightarrow> real \<Rightarrow> exn + real" where
  \<comment> \<open>\<open>for j in range(0, 3): if i != j: sum += confusion[i][j] / 300\<close>\<close>
  "sum_loop_j confusion i [] sum_acc = Inr sum_acc"
| "sum_loop_j confusion i (j # js) sum_acc =
     (if i \<noteq> j then
        (case getitem2 confusion i j of
           Inl e \<Rightarrow> Inl e
         | Inr c \<Rightarrow> sum_loop_j confusion i js (float_add sum_acc (truediv (float_of_int c) 300)))
      else sum_loop_j confusion i js sum_acc)"

fun sum_loop_i :: "int ndarray2 \<Rightarrow> nat list \<Rightarrow> real \<Rightarrow> exn + real" where
  "sum_loop_i confusion [] sum_acc = Inr sum_acc"
| "sum_loop_i confusion (i # is) sum_acc =
     (case sum_loop_j confusion i [0..<3] sum_acc of
        Inl e \<Rightarrow> Inl e
      | Inr sum_acc' \<Rightarrow> sum_loop_i confusion is sum_acc')"

definition computeMetrics :: "int ndarray2 \<Rightarrow> exn + real \<times> real" where
  "computeMetrics confusion =
     (case meanSensibility_loop confusion [0..<3] 0 of
        Inl e \<Rightarrow> Inl e
      | Inr meanSensibility \<Rightarrow>
          (case sum_loop_i confusion [0..<3] 0 of
             Inl e \<Rightarrow> Inl e
           | Inr sum_acc \<Rightarrow> Inr (meanSensibility, float_sub 1 sum_acc)))"

subsection \<open>trainModel, from the confusion matrix to the metrics\<close>

text \<open>
  trainModel computes \<open>confusion_matrix(y_test, y_prediction)\<close> and passes it to
  computeMetrics. scikit-learn's \<open>confusion_matrix\<close> is not part of the repository; it is
  modelled from its documentation: the labels are those that appear at least once in
  \<open>y_true\<close> or \<open>y_pred\<close>, in sorted order, and the entry at \<open>(i, j)\<close> counts the samples
  whose true label is the \<open>i\<close>-th label and whose predicted label is the \<open>j\<close>-th. Inputs
  of different lengths raise \<open>ValueError\<close>.
\<close>

definition confusion_matrix :: "nat list \<Rightarrow> nat list \<Rightarrow> exn + int ndarray2" where
  "confusion_matrix y_true y_pred =
     (if length y_true \<noteq> length y_pred then Inl ValueError
      else
        let labels = sort (remdups (y_true @ y_pred)); n = length labels
        in Inr \<lparr>shape2 = (n, n),
                item2 = (\<lambda>i j. int (length (filter (\<lambda>(t, p). t = labels ! i \<and> p = labels ! j)
                                                (zip y_true y_pred))))\<rparr>)"

definition trainModel_metrics :: "nat list \<Rightarrow> nat list \<Rightarrow> exn + real \<times> real" where
  \<comment> \<open>\<open>confusion = confusion_matrix(y_test, y_prediction)\<close>, then
      \<open>computeMetrics(confusion)\<close>\<close>
  "trainModel_metrics y_test y_prediction =
     (case confusion_matrix y_test y_prediction of
        Inl e \<Rightarrow> Inl e
      | Inr confusion \<Rightarrow> computeMetrics confusion)"

subsection \<open>The mean per-class sensibility as the specification words it\<close>

text \<open>
  The specification calls the first metric the average of the matrix's diagonal entries,
  each divided by the normalizer 100. These two definitions follow that sentence, not the
  code.
\<close>

definition diagonal :: "'a ndarray2 \<Rightarrow> 'a list" where
  "diagonal a = map (\<lambda>i. item2 a i i) [0..<min (fst (shape2 a)) (snd (shape2 a))]"

definition average :: "real list \<Rightarrow> real" where
  "average xs = sum_list xs / of_nat (length xs)"

subsection \<open>The feature blocks of one scale as the specification words them\<close>

text \<open>
  \<open>scale_blocks L img fs\<close>: \<open>fs\<close> is the 20 contrast values, then the 20 homogeneity
  values, each block being one \<open>graycoprops\<close> result read distance by distance and, within
  a distance, angle by angle, then the 20 entropy values that glcmEntropy returns, all of
  the co-occurrence matrix of \<open>img\<close>.
\<close>

definition scale_blocks :: "('img, 'arr) env \<Rightarrow> 'img \<Rightarrow> real list \<Rightarrow> bool" where
  "scale_blocks L img fs \<longleftrightarrow>
     (\<exists>numpyImage glcm contrast homogeneity entropy.
        np_array_uint8 L img = Inr numpyImage \<and>
        graycomatrix L numpyImage [1, 2, 4, 8, 16] [0, pi / 4, pi / 2, 3 * pi / 4] 256 = Inr glcm \<and>
        graycoprops L glcm ''contrast'' = Inr contrast \<and>
        graycoprops L glcm ''homogeneity'' = Inr homogeneity \<and>
        glcmEntropy L glcm = Inr entropy \<and> length entropy = 20 \<and>
        fs = [item2 contrast d a. d \<leftarrow> [0..<5], a \<leftarrow> [0..<4]] @
             [item2 homogeneity d a. d \<leftarrow> [0..<5], a \<leftarrow> [0..<4]] @ entropy)"

subsection \<open>What the loader enumerates and reports\<close>

definition png_files :: "DirEntry list \<Rightarrow> DirEntry list" where
  \<comment> \<open>the entries of a folder that pass the test of the inner loop, in scan order\<close>
  "png_files files = filter (\<lambda>file. endswith (entry_path file) ''.png'' \<and> entry_is_file file) files"

definition progress_calls :: "nat \<Rightarrow> nat \<Rightarrow> screen" where
  \<comment> \<open>the calls that the screen receives for the files number \<open>n + 1\<close> to \<open>n + k\<close>\<close>
  "progress_calls n k =
     concat (map (\<lambda>c. [ProgressBar_value (progress_percent c), Update_idletasks,
                         Text_set (progress_text c)]) [n + 1..<n + k + 1])"

subsection \<open>A stand-in for the collaborators\<close>

text \<open>
  To run the functions on concrete inputs the collaborators are replaced by a stand-in. Its
  images are pairs (number of colours, width); quantizing sets the first component,
  resizing the second. Every value it computes for distance \<open>d\<close> and angle \<open>a\<close> carries
  the colours, the width and \<open>4 * d + a\<close> in its digits, and ends in 1 for contrast, 2 for
  homogeneity and 3 for entropy, so that a feature vector shows where each value comes from.
  Opening a file and scanning a folder are parameters.
\<close>

definition stand_in ::
  "(string option \<Rightarrow> exn + nat \<times> nat) \<Rightarrow> (string \<Rightarrow> exn + DirEntry list) \<Rightarrow>
   (nat \<times> nat, nat \<times> nat) env" where
  "stand_in opener scandir =
     \<lparr>Image_open = opener,
      ImageOps_equalize = Inr,
      Image_convert = (\<lambda>im mode. Inr im),
      Image_quantize = (\<lambda>im colors. Inr (colors, snd im)),
      Image_resize = (\<lambda>im size. Inr (fst im, fst size)),
      np_array_uint8 = Inr,
      graycomatrix = (\<lambda>a ds angles levels.
        Inr \<lparr>shape4 = (levels, levels, length ds, length angles),
             item4 = (\<lambda>i j d k. (1000 * fst a + snd a) * 100 + (4 * d + k))\<rparr>),
      graycoprops = (\<lambda>g prop.
        Inr \<lparr>shape2 = (fst (snd (snd (shape4 g))), snd (snd (snd (shape4 g)))),
             item2 = (\<lambda>d k. of_nat (item4 g 0 0 d k * 10 + (if prop = ''contrast'' then 1 else 2)))\<rparr>),
      shannon_entropy = (\<lambda>s. of_nat (item2 s 0 0 * 10 + 3)),
      os_scandir = scandir\<rparr>"

text \<open>The feature vector of the stand-in, the same for every image.\<close>

definition stand_in_vector :: "real list" where
  "stand_in_vector =
     concat (map (\<lambda>(q, s).
            map (\<lambda>n. of_nat (((1000 * q + s) * 100 + n) * 10 + 1)) [0..<20] @
            map (\<lambda>n. of_nat (((1000 * q + s) * 100 + n) * 10 + 2)) [0..<20] @
            map (\<lambda>n. of_nat (((1000 * q + s) * 100 + n) * 10 + 3)) [0..<20])
          [(16, 32), (16, 64), (16, 128), (32, 32), (32, 64), (32, 128)])"

definition open_any :: "string option \<Rightarrow> exn + nat \<times> nat" where
  \<comment> \<open>every file opens\<close>
  "open_any path = Inr (256, 200)"

definition open_sound :: "string option \<Rightarrow> exn + nat \<times> nat" where
  \<comment> \<open>a file whose name ends in \<open>corrupt.png\<close> does not open\<close>
  "open_sound path =
     (case path of
        None \<Rightarrow> Inl (Exception ''no path'')
      | Some p \<Rightarrow> if endswith p ''corrupt.png'' then Inl OSError else Inr (256, 200))"

definition no_folders :: "string \<Rightarrow> exn + DirEntry list" where
  "no_folders dir = Inl FileNotFoundError"


subsection \<open>Folder trees for the loader\<close>

text \<open>
  Three listings for \<open>os.scandir\<close>: a tree with four .png files, a text file and a folder
  whose name ends in .png; a tree with five .png files, one of them unreadable; a tree with
  800 .png files in imgs/1/.
\<close>

definition demo_tree :: "string \<Rightarrow> exn + DirEntry list" where
  "demo_tree dir =
     (if dir = ''imgs/1/'' then
        Inr [\<lparr>entry_path = ''imgs/1/a.png'', entry_is_file = True\<rparr>,
             \<lparr>entry_path = ''imgs/1/notes.txt'', entry_is_file = True\<rparr>,
             \<lparr>entry_path = ''imgs/1/old.png'', entry_is_file = False\<rparr>]
      else if dir = ''imgs/2/'' then
        Inr [\<lparr>entry_path = ''imgs/2/b.png'', entry_is_file = True\<rparr>]
      else if dir = ''imgs/3/'' then Inr []
      else if dir = ''imgs/4/'' then
        Inr [\<lparr>entry_path = ''imgs/4/c.png'', entry_is_file = True\<rparr>,
             \<lparr>entry_path = ''imgs/4/d.png'', entry_is_file = True\<rparr>]
      else Inl FileNotFoundError)"

definition corrupt_tree :: "string \<Rightarrow> exn + DirEntry list" where
  "corrupt_tree dir =
     (if dir = ''imgs/1/'' then
        Inr [\<lparr>entry_path = ''imgs/1/a.png'', entry_is_file = True\<rparr>]
      else if dir = ''imgs/2/'' then
        Inr [\<lparr>entry_path = ''imgs/2/b.png'', entry_is_file = True\<rparr>,
             \<lparr>entry_path = ''imgs/2/corrupt.png'', entry_is_file = True\<rparr>,
             \<lparr>entry_path = ''imgs/2/e.png'', entry_is_file = True\<rparr>]
      else if dir = ''imgs/3/'' then Inr []
      else if dir = ''imgs/4/'' then
        Inr [\<lparr>entry_path = ''imgs/4/c.png'', entry_is_file = True\<rparr>]
      else Inl FileNotFoundError)"


text \<open>The pairs of the loader as the specification words them.\<close>

definition labelled_files :: "(nat \<Rightarrow> DirEntry list) \<Rightarrow> (DirEntry \<times> nat) list" where
  \<comment> \<open>the files that the loops reach, in the order in which they reach them, each with
      the number of its folder\<close>
  "labelled_files dir = concat (map (\<lambda>i. map (\<lambda>file. (file, i)) (png_files (dir i))) [1..<5])"

section \<open>Properties of the float operations\<close>

lemma ilog2_le:
  assumes "0 < x"
  shows "power_int 2 (ilog2 x) \<le> x"
proof (cases "1 \<le> x")
  case True
  then have pos: "0 < \<lfloor>x\<rfloor>" by simp
  from bitlen_bounds [OF pos] have b: "2 ^ nat (bitlen \<lfloor>x\<rfloor> - 1) \<le> \<lfloor>x\<rfloor>" by simp
  have "1 \<le> bitlen \<lfloor>x\<rfloor>" using pos by (simp add: bitlen_alt_def)
  then have "power_int (2::real) (bitlen \<lfloor>x\<rfloor> - 1) = 2 ^ nat (bitlen \<lfloor>x\<rfloor> - 1)"
    by (simp add: power_int_def)
  also have "\<dots> = of_int (2 ^ nat (bitlen \<lfloor>x\<rfloor> - 1))" by simp
  also have "\<dots> \<le> of_int \<lfloor>x\<rfloor>" using b by (simp only: of_int_le_iff)
  also have "\<dots> \<le> x" by simp
  finally show ?thesis using True by (simp add: ilog2_def)
next
  case False
  define c where "c = \<lceil>1 / x\<rceil>"
  have y: "1 < 1 / x" using False assms by simp
  then have c2: "2 \<le> c" unfolding c_def by linarith
  then have pos: "0 < c - 1" by simp
  from bitlen_bounds [OF pos] have "c - 1 < 2 ^ nat (bitlen (c - 1))" by simp
  then have "c \<le> 2 ^ nat (bitlen (c - 1))" by simp
  then have "(of_int c :: real) \<le> of_int (2 ^ nat (bitlen (c - 1)))" by (simp only: of_int_le_iff)
  then have "(of_int c :: real) \<le> 2 ^ nat (bitlen (c - 1))" by simp
  moreover have "1 / x \<le> of_int c" unfolding c_def by simp
  ultimately have "1 / x \<le> 2 ^ nat (bitlen (c - 1))" by linarith
  then have "1 / 2 ^ nat (bitlen (c - 1)) \<le> x"
    using assms by (simp add: field_simps)
  moreover have "power_int (2::real) (- bitlen (c - 1)) = 1 / 2 ^ nat (bitlen (c - 1))"
    using bitlen_nonneg [of "c - 1"] by (simp add: power_int_def inverse_eq_divide power_one_over)
  ultimately show ?thesis using False by (simp add: ilog2_def c_def)
qed

lemma round_even_le: "x \<le> of_int n \<Longrightarrow> round_even x \<le> n"
  unfolding round_even_def Let_def by (auto; linarith)

lemma round_even_ge: "of_int n \<le> x \<Longrightarrow> n \<le> round_even x"
  unfolding round_even_def Let_def by (auto; linarith)

lemma float64_bracket:
  assumes x: "0 < x" and True: "x < 2 ^ 53"
  shows "(x \<le> of_int n \<longrightarrow> float64 x \<le> of_int n) \<and> (of_int n \<le> x \<longrightarrow> of_int n \<le> float64 x)"
proof -
  define e where "e = ilog2 x"
  define k where "k = nat (52 - e)"
  define u :: real where "u = power_int 2 (e - 52)"
  have "power_int 2 e \<le> x" unfolding e_def using x by (rule ilog2_le)
  then have "power_int (2::real) e < power_int 2 53" using True by simp
  then have "e < 53" using power_int_le_imp_less_exp [of "2::real" e 53] by simp
  then have u: "u = 1 / 2 ^ k" unfolding u_def k_def
    by (simp add: power_int_def inverse_eq_divide power_one_over nat_diff_distrib)
  have upos: "0 < u" by (simp add: u)
  have nu: "of_int n / u = of_int (n * 2 ^ k)" by (simp add: u)
  have f: "float64 x = of_int (round_even (x / u)) * u"
    using x by (simp add: float64_def u_def e_def Let_def)
  show ?thesis
  proof (intro conjI impI)
    assume "x \<le> of_int n"
    then have "x / u \<le> of_int n / u" using upos by (simp add: divide_right_mono)
    then have "x / u \<le> of_int (n * 2 ^ k)" by (simp only: nu)
    then have "round_even (x / u) \<le> n * 2 ^ k" by (rule round_even_le)
    then have "of_int (round_even (x / u)) \<le> (of_int (n * 2 ^ k) :: real)" by (simp only: of_int_le_iff)
    then have "of_int (round_even (x / u)) * u \<le> of_int (n * 2 ^ k) * u"
      using upos by (simp only: mult_le_cancel_right_pos)
    then show "float64 x \<le> of_int n" by (simp add: f u)
  next
    assume "of_int n \<le> x"
    then have "of_int n / u \<le> x / u" using upos by (simp add: divide_right_mono)
    then have "of_int (n * 2 ^ k) \<le> x / u" by (simp only: nu)
    then have "n * 2 ^ k \<le> round_even (x / u)" by (rule round_even_ge)
    then have "(of_int (n * 2 ^ k) :: real) \<le> of_int (round_even (x / u))" by (simp only: of_int_le_iff)
    then have "of_int (n * 2 ^ k) * u \<le> of_int (round_even (x / u)) * u"
      using upos by (simp only: mult_le_cancel_right_pos)
    then show "of_int n \<le> float64 x" by (simp add: f u)
  qed
qed

lemma float64_of_int: "0 \<le> n \<Longrightarrow> n < 2 ^ 53 \<Longrightarrow> float64 (of_int n) = of_int n"
proof (cases "n = 0")
  case True
  then show ?thesis by (simp add: float64_def)
next
  case False
  assume "0 \<le> n" "n < 2 ^ 53"
  with False have "0 < (of_int n :: real)" "(of_int n :: real) < of_int (2 ^ 53)"
    by (simp_all only: of_int_less_iff of_int_0_less_iff)
  then have "0 < (of_int n :: real)" "(of_int n :: real) < 2 ^ 53" by simp_all
  from float64_bracket [OF this, of n] show ?thesis by simp
qed

lemma float64_numeral [simp]:
  "(numeral k :: int) < 2 ^ 53 \<Longrightarrow> float64 (numeral k) = numeral k"
  using float64_of_int [of "numeral k"] by simp

lemma float64_0 [simp]: "float64 0 = 0"
  by (simp add: float64_def)

lemma float64_1 [simp]: "float64 1 = 1"
  using float64_of_int [of 1] by simp



lemma float_of_int_numeral [simp]:
  "(numeral k :: int) < 2 ^ 53 \<Longrightarrow> float_of_int (numeral k) = numeral k"
  by (simp add: float_of_int_def)

lemma float_of_int_0 [simp]: "float_of_int 0 = 0"
  by (simp add: float_of_int_def)

lemma float_of_int_1 [simp]: "float_of_int 1 = 1"
  by (simp add: float_of_int_def)

section \<open>computeMetrics\<close>

lemma upt_0_3: "[0..<3] = [0, 1, 2]"
  by (simp add: upt_rec)

lemma meanSensibility_loop_cong:
  "(\<And>i. i \<in> set is \<Longrightarrow> getitem2 a i i = getitem2 b i i) \<Longrightarrow>
   meanSensibility_loop a is acc = meanSensibility_loop b is acc"
  by (induction "is" arbitrary: acc) (auto split: sum.splits)

lemma sum_loop_j_cong:
  "(\<And>j. j \<in> set js \<Longrightarrow> getitem2 a i j = getitem2 b i j) \<Longrightarrow>
   sum_loop_j a i js acc = sum_loop_j b i js acc"
  by (induction js arbitrary: acc) (auto split: sum.splits)

lemma sum_loop_i_cong:
  "(\<And>i j. i \<in> set is \<Longrightarrow> j < 3 \<Longrightarrow> getitem2 a i j = getitem2 b i j) \<Longrightarrow>
   sum_loop_i a is acc = sum_loop_i b is acc"
proof (induction "is" arbitrary: acc)
  case Nil
  then show ?case by simp
next
  case (Cons i "is")
  have "sum_loop_j a i [0..<3] acc = sum_loop_j b i [0..<3] acc"
    by (rule sum_loop_j_cong) (simp add: Cons.prems)
  moreover have "sum_loop_i a is acc' = sum_loop_i b is acc'" for acc'
    by (rule Cons.IH) (simp add: Cons.prems)
  ultimately show ?case by (simp split: sum.splits)
qed

lemma computeMetrics_cong:
  assumes "\<And>i j. i < 3 \<Longrightarrow> j < 3 \<Longrightarrow> getitem2 a i j = getitem2 b i j"
  shows "computeMetrics a = computeMetrics b"
proof -
  have m: "meanSensibility_loop a [0..<3] 0 = meanSensibility_loop b [0..<3] 0"
    by (rule meanSensibility_loop_cong) (simp add: assms)
  have s: "sum_loop_i a [0..<3] 0 = sum_loop_i b [0..<3] 0"
    by (rule sum_loop_i_cong) (simp add: assms)
  show ?thesis unfolding computeMetrics_def by (simp only: m s)
qed

lemma computeMetrics_unroll:
  assumes "3 \<le> fst (shape2 c)" "3 \<le> snd (shape2 c)"
  shows "computeMetrics c =
    Inr (foldl float_add 0 (map (\<lambda>i. truediv (float_of_int (item2 c i i)) 100) [0, 1, 2]),
         float_sub 1 (foldl float_add 0
           (map (\<lambda>(i, j). truediv (float_of_int (item2 c i j)) 300)
              [(0, 1), (0, 2), (1, 0), (1, 2), (2, 0), (2, 1)])))"
  using assms by (simp add: computeMetrics_def upt_0_3 getitem2_def)

lemma computeMetrics_small:
  assumes "fst (shape2 c) < 3 \<or> snd (shape2 c) < 3"
  shows "computeMetrics c = Inl IndexError"
  using assms by (auto simp add: computeMetrics_def upt_0_3 getitem2_def split: sum.splits)

lemma less_3_cases: "(i::nat) < 3 \<longleftrightarrow> i = 0 \<or> i = 1 \<or> i = 2"
  by auto

subsection \<open>The claims about computeMetrics\<close>

text \<open>
  What computeMetrics returns as its first metric: the float sum
  \<open>((0 + c[0][0]/100) + c[1][1]/100) + c[2][2]/100\<close> of the first three diagonal entries
  of the confusion matrix, each divided by 100. Nothing divides it by the number of
  classes, and a fourth diagonal entry is not read.
\<close>

lemma computeMetrics_meanSensibility_sum:
  "(3 \<le> fst (shape2 c) \<and> 3 \<le> snd (shape2 c) \<longrightarrow>
      (\<exists>sp. computeMetrics c =
         Inr (foldl float_add 0 [truediv (float_of_int (item2 c i i)) 100. i \<leftarrow> [0..<3]], sp))) \<and>
   (\<forall>m sp. computeMetrics c = Inr (m, sp) \<longrightarrow>
      m = foldl float_add 0 [truediv (float_of_int (item2 c i i)) 100. i \<leftarrow> [0..<3]])"
proof (cases "3 \<le> fst (shape2 c) \<and> 3 \<le> snd (shape2 c)")
  case True
  then show ?thesis by (simp add: computeMetrics_unroll upt_0_3)
next
  case False
  then have "computeMetrics c = Inl IndexError" by (intro computeMetrics_small) auto
  with False show ?thesis by simp
qed

text \<open>
  Claim C2. The specification, like the docstring of computeMetrics, calls the first metric
  the mean sensibility: the average of the diagonal entries of the matrix, each divided by
  100. The code does not return that. For the confusion matrix with 100 on the diagonal
  and 0 elsewhere, where every diagonal entry divided by 100 is 1, computeMetrics returns
  3 and the average is 1.
\<close>

theorem computeMetrics_meanSensibility_not_mean:
  "computeMetrics (array2 [[100, 0, 0], [0, 100, 0], [0, 0, 100]]) = Inr (3, 1) \<and>
   average (map (\<lambda>d. of_int d / 100) (diagonal (array2 [[100, 0, 0], [0, 100, 0], [0, 0, 100 :: int]]))) = 1"
  by (simp add: computeMetrics_unroll array2_def float_add_def truediv_def float_sub_def
      diagonal_def average_def upt_0_3)

text \<open>
  Claim C5. The second metric that computeMetrics returns is 1 minus the float sum, taken
  row by row, of the off-diagonal entries \<open>c[i][j]\<close> with \<open>i \<noteq> j\<close> and \<open>i, j < 3\<close>, each
  divided by 300; whenever the matrix has at least three rows and three columns that
  value is returned.
\<close>

theorem computeMetrics_specificity:
  "(3 \<le> fst (shape2 c) \<and> 3 \<le> snd (shape2 c) \<longrightarrow>
      (\<exists>m. computeMetrics c =
         Inr (m, float_sub 1 (foldl float_add 0
           [truediv (float_of_int (item2 c i j)) 300. i \<leftarrow> [0..<3], j \<leftarrow> [0..<3], i \<noteq> j])))) \<and>
   (\<forall>m sp. computeMetrics c = Inr (m, sp) \<longrightarrow>
      sp = float_sub 1 (foldl float_add 0
           [truediv (float_of_int (item2 c i j)) 300. i \<leftarrow> [0..<3], j \<leftarrow> [0..<3], i \<noteq> j]))"
proof (cases "3 \<le> fst (shape2 c) \<and> 3 \<le> snd (shape2 c)")
  case True
  then show ?thesis by (simp add: computeMetrics_unroll upt_0_3)
next
  case False
  then have "computeMetrics c = Inl IndexError" by (intro computeMetrics_small) auto
  with False show ?thesis by simp
qed

theorem computeMetrics_specificity_witness:
  "3 \<le> fst (shape2 (array2 [[20, 1, 0, 0], [2, 17, 1, 0], [0, 3, 15, 2], [1, 0, 4, 14 :: int]])) \<and>
   3 \<le> snd (shape2 (array2 [[20, 1, 0, 0], [2, 17, 1, 0], [0, 3, 15, 2], [1, 0, 4, 14 :: int]])) \<and>
   (\<exists>m. computeMetrics (array2 [[20, 1, 0, 0], [2, 17, 1, 0], [0, 3, 15, 2], [1, 0, 4, 14]]) =
      Inr (m, float_sub 1 (foldl float_add 0
        [truediv 1 300, truediv 0 300, truediv 2 300, truediv 1 300, truediv 0 300, truediv 3 300])))"
  using computeMetrics_specificity
    [of "array2 [[20, 1, 0, 0], [2, 17, 1, 0], [0, 3, 15, 2], [1, 0, 4, 14]]"]
  by (simp add: array2_def upt_0_3)

lemma confusion_matrix_shape:
  assumes "length y_true = length y_pred"
  shows "\<exists>c. confusion_matrix y_true y_pred = Inr c \<and>
     shape2 c = (card (set y_true \<union> set y_pred), card (set y_true \<union> set y_pred))"
proof -
  have "length (sort (remdups (y_true @ y_pred))) = card (set y_true \<union> set y_pred)"
    by (simp add: length_remdups_card_conv)
  with assms show ?thesis by (simp add: confusion_matrix_def Let_def)
qed

lemma trainModel_metrics_IndexError:
  assumes "length y_test = length y_prediction"
  shows "trainModel_metrics y_test y_prediction = Inl IndexError \<longleftrightarrow>
     card (set y_test \<union> set y_prediction) < 3"
proof -
  from confusion_matrix_shape [OF assms] obtain c where
    c: "confusion_matrix y_test y_prediction = Inr c"
    and s: "shape2 c = (card (set y_test \<union> set y_prediction), card (set y_test \<union> set y_prediction))"
    by blast
  show ?thesis
  proof (cases "card (set y_test \<union> set y_prediction) < 3")
    case True
    with s have "computeMetrics c = Inl IndexError" by (intro computeMetrics_small) simp
    with True c show ?thesis by (simp add: trainModel_metrics_def)
  next
    case False
    with s have "3 \<le> fst (shape2 c)" "3 \<le> snd (shape2 c)" by simp_all
    from computeMetrics_unroll [OF this] False c show ?thesis by (simp add: trainModel_metrics_def)
  qed
qed

text \<open>
  Claim C9, amended. computeMetrics reads the confusion matrix only at indices \<open>(i, j)\<close>
  with \<open>i, j < 3\<close>: replacing the items by any \<open>f\<close> that agrees with them at those
  indices does not change the result. With at least three rows and three columns it
  returns the two metrics; with fewer than three rows or fewer than three columns it
  raises \<open>IndexError\<close>. In trainModel that happens exactly when fewer than three distinct
  labels occur in the test labels and the predictions taken together.
\<close>

theorem computeMetrics_index_bounds:
  "((\<forall>i<3. \<forall>j<3. f i j = item2 c i j) \<longrightarrow>
        computeMetrics (c\<lparr>item2 := f\<rparr>) = computeMetrics c) \<and>
   (3 \<le> fst (shape2 c) \<and> 3 \<le> snd (shape2 c) \<longrightarrow> (\<exists>m sp. computeMetrics c = Inr (m, sp))) \<and>
   (fst (shape2 c) < 3 \<or> snd (shape2 c) < 3 \<longrightarrow> computeMetrics c = Inl IndexError) \<and>
   (length y_test = length y_prediction \<longrightarrow>
      (trainModel_metrics y_test y_prediction = Inl IndexError \<longleftrightarrow>
       card (set y_test \<union> set y_prediction) < 3))"
proof (intro conjI impI)
  assume "\<forall>i<3. \<forall>j<3. f i j = item2 c i j"
  then show "computeMetrics (c\<lparr>item2 := f\<rparr>) = computeMetrics c"
    by (intro computeMetrics_cong) (simp add: getitem2_def)
next
  assume "3 \<le> fst (shape2 c) \<and> 3 \<le> snd (shape2 c)"
  then show "\<exists>m sp. computeMetrics c = Inr (m, sp)" by (simp add: computeMetrics_unroll)
next
  assume "fst (shape2 c) < 3 \<or> snd (shape2 c) < 3"
  then show "computeMetrics c = Inl IndexError" by (rule computeMetrics_small)
next
  assume "length y_test = length y_prediction"
  then show "trainModel_metrics y_test y_prediction = Inl IndexError \<longleftrightarrow>
       card (set y_test \<union> set y_prediction) < 3"
    by (rule trainModel_metrics_IndexError)
qed

theorem computeMetrics_index_bounds_witness:
  "computeMetrics (array2 [[5, 1, 1], [1, 5, 1], [1, 1, 5]]\<lparr>item2 := \<lambda>i j. if i = j then 5 else 1\<rparr>)
     = computeMetrics (array2 [[5, 1, 1], [1, 5, 1], [1, 1, 5]]) \<and>
   3 \<le> fst (shape2 (array2 [[5, 1, 1], [1, 5, 1], [1, 1, 5 :: int]])) \<and>
   3 \<le> snd (shape2 (array2 [[5, 1, 1], [1, 5, 1], [1, 1, 5 :: int]])) \<and>
   (\<exists>m sp. computeMetrics (array2 [[5, 1, 1], [1, 5, 1], [1, 1, 5]]) = Inr (m, sp)) \<and>
   fst (shape2 (array2 [[9, 1], [2, 8 :: int]])) < 3 \<and>
   computeMetrics (array2 [[9, 1], [2, 8]]) = Inl IndexError \<and>
   length [1, 2, 2, 1 :: nat] = length [1, 2, 1, 1 :: nat] \<and>
   card (set [1, 2, 2, 1 :: nat] \<union> set [1, 2, 1, 1]) < 3 \<and>
   trainModel_metrics [1, 2, 2, 1] [1, 2, 1, 1] = Inl IndexError"
proof -
  let ?c = "array2 [[5, 1, 1], [1, 5, 1], [1, 1, 5 :: int]]"
  let ?d = "array2 [[9, 1], [2, 8 :: int]]"
  have h: "\<forall>i<3. \<forall>j<3. (if i = j then 5 else 1) = item2 ?c i j"
    by (auto simp add: less_3_cases array2_def)
  have s: "3 \<le> fst (shape2 ?c) \<and> 3 \<le> snd (shape2 ?c)" by (simp add: array2_def)
  have t: "fst (shape2 ?d) < 3" by (simp add: array2_def)
  have l: "length [1, 2, 2, 1 :: nat] = length [1, 2, 1, 1 :: nat]" by simp
  have k: "card (set [1, 2, 2, 1 :: nat] \<union> set [1, 2, 1, 1]) < 3"
    by (simp add: card_insert_if)
  note c = computeMetrics_index_bounds
    [of "\<lambda>i j. if i = j then 5 else 1" ?c "[1, 2, 2, 1]" "[1, 2, 1, 1]"]
  note d = computeMetrics_index_bounds [of "\<lambda>i j. 0" ?d "[1, 2, 2, 1]" "[1, 2, 1, 1]"]
  from c h have 1: "computeMetrics (?c\<lparr>item2 := \<lambda>i j. if i = j then 5 else 1\<rparr>) = computeMetrics ?c"
    by blast
  from c s have 2: "\<exists>m sp. computeMetrics ?c = Inr (m, sp)" by blast
  from d t have 3: "computeMetrics ?d = Inl IndexError" by blast
  from c l k have 4: "trainModel_metrics [1, 2, 2, 1] [1, 2, 1, 1] = Inl IndexError" by blast
  from 1 2 3 4 s t l k show ?thesis by blast
qed

text \<open>
  Claim C9 as the specification states it fails in its last clause: a test split with fewer
  than three distinct classes does not make the matrix smaller than 3 by 3. With the test
  labels 1, 1, 2, 2 and the predictions 1, 3, 2, 2 the labels are 1, 2, 3, the matrix is 3
  by 3, and the metrics are returned.
\<close>

theorem computeMetrics_index_bounds_counterexample:
  "card (set [1, 1, 2, 2 :: nat]) < 3 \<and>
   trainModel_metrics [1, 1, 2, 2] [1, 3, 2, 2] =
     Inr (foldl float_add 0 [truediv 1 100, truediv 2 100, truediv 0 100],
          float_sub 1 (foldl float_add 0
            [truediv 0 300, truediv 1 300, truediv 0 300, truediv 0 300, truediv 0 300,
             truediv 0 300]))"
proof -
  have "card (set [1, 1, 2, 2 :: nat]) < 3" by simp
  moreover have "sort (remdups ([1, 1, 2, 2] @ [1, 3, 2, 2 :: nat])) = [1, 2, 3]" by simp
  then have "trainModel_metrics [1, 1, 2, 2] [1, 3, 2, 2] =
     Inr (foldl float_add 0 [truediv 1 100, truediv 2 100, truediv 0 100],
          float_sub 1 (foldl float_add 0
            [truediv 0 300, truediv 1 300, truediv 0 300, truediv 0 300, truediv 0 300,
             truediv 0 300]))"
    by (simp add: trainModel_metrics_def confusion_matrix_def Let_def computeMetrics_unroll)
  ultimately show ?thesis by blast
qed

text \<open>
  Claim C10. Two confusion matrices whose reads \<open>c[i][j]\<close> agree for all \<open>i, j < 3\<close> give
  the same result of computeMetrics: a fourth row or column never influences it.
\<close>

theorem computeMetrics_top_left:
  assumes "\<forall>i<3. \<forall>j<3. getitem2 a i j = getitem2 b i j"
  shows "computeMetrics a = computeMetrics b"
  using assms by (intro computeMetrics_cong) simp

theorem computeMetrics_top_left_witness:
  "getitem2 (array2 [[20, 1, 0, 5], [2, 17, 1, 6], [0, 3, 15, 7], [8, 9, 10, 11 :: int]]) 3 3 = Inr 11 \<and>
   getitem2 (array2 [[20, 1, 0], [2, 17, 1], [0, 3, 15 :: int]]) 3 3 = Inl IndexError \<and>
   computeMetrics (array2 [[20, 1, 0, 5], [2, 17, 1, 6], [0, 3, 15, 7], [8, 9, 10, 11]]) =
   computeMetrics (array2 [[20, 1, 0], [2, 17, 1], [0, 3, 15]])"
proof -
  have h: "\<forall>i<3. \<forall>j<3.
      getitem2 (array2 [[20, 1, 0, 5], [2, 17, 1, 6], [0, 3, 15, 7], [8, 9, 10, 11 :: int]]) i j =
      getitem2 (array2 [[20, 1, 0], [2, 17, 1], [0, 3, 15]]) i j"
    by (auto simp add: less_3_cases getitem2_def array2_def)
  from computeMetrics_top_left [OF h] show ?thesis by (simp add: getitem2_def array2_def)
qed

section \<open>The feature pipeline\<close>

lemma upt_0_4: "[0..<4] = [0, 1, 2, 3]"
  by (simp add: upt_rec)

lemma upt_0_5: "[0..<5] = [0, 1, 2, 3, 4]"
  by (simp add: upt_rec)

lemma slice_last2_Inr:
  "i < fst (snd (snd (shape4 g))) \<Longrightarrow> j < snd (snd (snd (shape4 g))) \<Longrightarrow>
   slice_last2 g i j =
     Inr \<lparr>shape2 = (fst (shape4 g), fst (snd (shape4 g))), item2 = (\<lambda>r c. item4 g r c i j)\<rparr>"
  by (auto simp add: slice_last2_def split: prod.splits)

lemma slice_last2_Inl:
  "\<not> (i < fst (snd (snd (shape4 g))) \<and> j < snd (snd (snd (shape4 g)))) \<Longrightarrow>
   slice_last2 g i j = Inl IndexError"
  by (auto simp add: slice_last2_def split: prod.splits)

lemma glcmEntropy_j_Inr:
  "(\<And>j. j \<in> set js \<Longrightarrow> slice_last2 g i j = Inr (sl j)) \<Longrightarrow>
   glcmEntropy_j L g i js acc = Inr (acc @ map (\<lambda>j. shannon_entropy L (sl j)) js)"
  by (induction js arbitrary: acc) simp_all

lemma glcmEntropy_i_Inr:
  "(\<And>i j. i \<in> set is \<Longrightarrow> j < 4 \<Longrightarrow> slice_last2 g i j = Inr (sl i j)) \<Longrightarrow>
   glcmEntropy_i L g is acc =
     Inr (acc @ concat (map (\<lambda>i. map (\<lambda>j. shannon_entropy L (sl i j)) [0..<4]) is))"
proof (induction "is" arbitrary: acc)
  case Nil
  then show ?case by simp
next
  case (Cons i "is")
  have "glcmEntropy_j L g i [0..<4] acc = Inr (acc @ map (\<lambda>j. shannon_entropy L (sl i j)) [0..<4])"
    by (rule glcmEntropy_j_Inr) (simp add: Cons.prems)
  moreover have "glcmEntropy_i L g is acc' =
     Inr (acc' @ concat (map (\<lambda>i. map (\<lambda>j. shannon_entropy L (sl i j)) [0..<4]) is))" for acc'
    by (rule Cons.IH) (simp add: Cons.prems)
  ultimately show ?case by simp
qed

lemma glcmEntropy_Inr:
  assumes "5 \<le> fst (snd (snd (shape4 g)))" "4 \<le> snd (snd (snd (shape4 g)))"
  shows "glcmEntropy L g =
     Inr (concat (map (\<lambda>i. map (\<lambda>j. shannon_entropy L (the_slice g i j)) [0..<4]) [0..<5]))"
proof -
  have "glcmEntropy_i L g [0..<5] [] =
     Inr ([] @ concat (map (\<lambda>i. map (\<lambda>j. shannon_entropy L (the_slice g i j)) [0..<4]) [0..<5]))"
    by (rule glcmEntropy_i_Inr) (use assms in \<open>simp add: slice_last2_Inr the_slice_def\<close>)
  then show ?thesis by (simp add: glcmEntropy_def)
qed

lemma slice_last2_error: "slice_last2 g i j = Inl e \<Longrightarrow> e = IndexError"
  by (auto simp add: slice_last2_def split: prod.splits if_splits)

lemma slice_last2_Inr_D:
  "slice_last2 g i j = Inr s \<Longrightarrow>
   i < fst (snd (snd (shape4 g))) \<and> j < snd (snd (snd (shape4 g)))"
  by (auto simp add: slice_last2_def split: prod.splits if_splits)

lemma glcmEntropy_j_error: "glcmEntropy_j L g i js acc = Inl e \<Longrightarrow> e = IndexError"
  by (induction js arbitrary: acc) (auto split: sum.splits dest: slice_last2_error)

lemma glcmEntropy_j_Inr_D:
  "glcmEntropy_j L g i js acc = Inr r \<Longrightarrow> j \<in> set js \<Longrightarrow> \<exists>s. slice_last2 g i j = Inr s"
  by (induction js arbitrary: acc) (auto split: sum.splits)

lemma glcmEntropy_i_error: "glcmEntropy_i L g is acc = Inl e \<Longrightarrow> e = IndexError"
  by (induction "is" arbitrary: acc) (auto split: sum.splits dest: glcmEntropy_j_error)

lemma glcmEntropy_i_Inr_D:
  "glcmEntropy_i L g is acc = Inr r \<Longrightarrow> i \<in> set is \<Longrightarrow> j < 4 \<Longrightarrow>
   \<exists>s. slice_last2 g i j = Inr s"
proof (induction "is" arbitrary: acc)
  case Nil
  then show ?case by simp
next
  case (Cons k ks)
  from Cons.prems(1) obtain acc' where j: "glcmEntropy_j L g k [0..<4] acc = Inr acc'"
    and r: "glcmEntropy_i L g ks acc' = Inr r"
    by (auto split: sum.splits)
  show ?case
  proof (cases "i = k")
    case True
    with j Cons.prems(3) show ?thesis by (auto dest: glcmEntropy_j_Inr_D [where j = j])
  next
    case False
    with Cons.prems(2) have "i \<in> set ks" by simp
    with r Cons.prems(3) show ?thesis using Cons.IH by blast
  qed
qed

lemma glcmEntropy_Inl:
  assumes "fst (snd (snd (shape4 g))) < 5 \<or> snd (snd (snd (shape4 g))) < 4"
  shows "glcmEntropy L g = Inl IndexError"
proof (cases "glcmEntropy L g")
  case (Inl e)
  then show ?thesis by (auto simp add: glcmEntropy_def dest: glcmEntropy_i_error)
next
  case (Inr r)
  then have "\<exists>s. slice_last2 g 4 3 = Inr s"
    unfolding glcmEntropy_def by (rule glcmEntropy_i_Inr_D) simp_all
  with assms show ?thesis by (auto dest: slice_last2_Inr_D)
qed

lemma length_concat_grid: "length (concat (map (\<lambda>i. map (f i) [0..<m]) [0..<n])) = n * m"
  by (induction n) simp_all

lemma nth_concat_grid:
  "i < n \<Longrightarrow> j < m \<Longrightarrow> concat (map (\<lambda>i. map (f i) [0..<m]) [0..<n]) ! (m * i + j) = f i j"
proof (induction n)
  case 0
  then show ?case by simp
next
  case (Suc n)
  show ?case
  proof (cases "i = n")
    case True
    with Suc.prems show ?thesis by (simp add: nth_append length_concat_grid)
  next
    case False
    with Suc.prems have i: "i < n" by simp
    have "m * i + j < m * Suc i" using Suc.prems(2) by simp
    also have "\<dots> \<le> m * n" using i by (simp only: mult_le_mono2 Suc_leI)
    finally have "m * i + j < n * m" by (simp add: mult.commute)
    with Suc.IH [OF i Suc.prems(2)] show ?thesis by (simp add: nth_append length_concat_grid)
  qed
qed

lemma hstack_Inr:
  "shape2 a = (rows, cols) \<Longrightarrow> 0 < rows \<Longrightarrow>
   hstack a = Inr (concat (map (\<lambda>r. map (item2 a r) [0..<cols]) [0..<rows]))"
  by (simp add: hstack_def)


lemma skimage_shapes_graycomatrix:
  "skimage_shapes L \<Longrightarrow> graycomatrix L a ds angles levels = Inr g \<Longrightarrow>
   shape4 g = (levels, levels, length ds, length angles)"
  unfolding skimage_shapes_def by blast

lemma skimage_shapes_graycoprops:
  "skimage_shapes L \<Longrightarrow> graycoprops L g prop = Inr r \<Longrightarrow>
   shape2 r = (fst (snd (snd (shape4 g))), snd (snd (snd (shape4 g))))"
  unfolding skimage_shapes_def by blast

lemma computeFeatures_Inr_D:
  assumes L: "skimage_shapes L" and fs: "computeFeatures L img = Inr fs"
  shows "\<exists>numpyImage glcm contrast homogeneity.
     np_array_uint8 L img = Inr numpyImage \<and>
     graycomatrix L numpyImage [1, 2, 4, 8, 16] [0, pi / 4, pi / 2, 3 * pi / 4] 256 = Inr glcm \<and>
     shape4 glcm = (256, 256, 5, 4) \<and>
     graycoprops L glcm ''contrast'' = Inr contrast \<and> shape2 contrast = (5, 4) \<and>
     graycoprops L glcm ''homogeneity'' = Inr homogeneity \<and> shape2 homogeneity = (5, 4) \<and>
     fs = [item2 contrast d a. d \<leftarrow> [0..<5], a \<leftarrow> [0..<4]] @
          [item2 homogeneity d a. d \<leftarrow> [0..<5], a \<leftarrow> [0..<4]] @
          [shannon_entropy L (the_slice glcm d a). d \<leftarrow> [0..<5], a \<leftarrow> [0..<4]]"
proof -
  from fs obtain numpyImage where a: "np_array_uint8 L img = Inr numpyImage"
    by (cases "np_array_uint8 L img") (simp_all add: computeFeatures_def)
  from fs a obtain glcm where
    g: "graycomatrix L numpyImage [1, 2, 4, 8, 16] [0, pi / 4, pi / 2, 3 * pi / 4] 256 = Inr glcm"
    by (cases "graycomatrix L numpyImage [1, 2, 4, 8, 16] [0, pi / 4, pi / 2, 3 * pi / 4] 256")
      (simp_all add: computeFeatures_def)
  from fs a g obtain contrast where c: "graycoprops L glcm ''contrast'' = Inr contrast"
    by (cases "graycoprops L glcm ''contrast''") (simp_all add: computeFeatures_def)
  from fs a g c obtain homogeneity where h: "graycoprops L glcm ''homogeneity'' = Inr homogeneity"
    by (cases "graycoprops L glcm ''homogeneity''") (simp_all add: computeFeatures_def)
  from skimage_shapes_graycomatrix [OF L g] have sg: "shape4 glcm = (256, 256, 5, 4)" by simp
  from skimage_shapes_graycoprops [OF L c] sg have sc: "shape2 contrast = (5, 4)" by simp
  from skimage_shapes_graycoprops [OF L h] sg have sh: "shape2 homogeneity = (5, 4)" by simp
  have e: "glcmEntropy L glcm =
     Inr (concat (map (\<lambda>i. map (\<lambda>j. shannon_entropy L (the_slice glcm i j)) [0..<4]) [0..<5]))"
    by (rule glcmEntropy_Inr) (simp_all add: sg)
  have hc: "hstack contrast = Inr (concat (map (\<lambda>r. map (item2 contrast r) [0..<4]) [0..<5]))"
    by (rule hstack_Inr [OF sc]) simp
  have hh: "hstack homogeneity = Inr (concat (map (\<lambda>r. map (item2 homogeneity r) [0..<4]) [0..<5]))"
    by (rule hstack_Inr [OF sh]) simp
  from fs have "fs = [item2 contrast d a. d \<leftarrow> [0..<5], a \<leftarrow> [0..<4]] @
          [item2 homogeneity d a. d \<leftarrow> [0..<5], a \<leftarrow> [0..<4]] @
          [shannon_entropy L (the_slice glcm d a). d \<leftarrow> [0..<5], a \<leftarrow> [0..<4]]"
    unfolding computeFeatures_def by (simp only: a g c h e hc hh sum.case) simp
  with a g c h sg sc sh show ?thesis by blast
qed

lemma computeFeatures_length:
  assumes "skimage_shapes L" "computeFeatures L img = Inr fs"
  shows "length fs = 60"
proof -
  from computeFeatures_Inr_D [OF assms]
  obtain contrast homogeneity :: "real ndarray2" and glcm :: "nat ndarray4" where
    "fs = [item2 contrast d a. d \<leftarrow> [0..<5], a \<leftarrow> [0..<4]] @
          [item2 homogeneity d a. d \<leftarrow> [0..<5], a \<leftarrow> [0..<4]] @
          [shannon_entropy L (the_slice glcm d a). d \<leftarrow> [0..<5], a \<leftarrow> [0..<4]]"
    by blast
  then show ?thesis by (simp add: length_concat_grid)
qed



lemma featuresSizes_Inr_D:
  assumes "featuresSizes L img = Inr fs"
  shows "\<exists>size32Image size64Image size128Image size32features size64features size128features.
     Image_resize L img (32, 32) = Inr size32Image \<and>
     Image_resize L img (64, 64) = Inr size64Image \<and>
     Image_resize L img (128, 128) = Inr size128Image \<and>
     computeFeatures L size32Image = Inr size32features \<and>
     computeFeatures L size64Image = Inr size64features \<and>
     computeFeatures L size128Image = Inr size128features \<and>
     fs = size32features @ size64features @ size128features"
  using assms unfolding featuresSizes_def by (auto split: sum.splits)



lemma featuresFile_Inr_D:
  assumes "featuresFile L path img = Inr v"
  shows "\<exists>img' equalizedImage grayImage quant16Image quant32Image features16 features32.
     (case img of None \<Rightarrow> Image_open L path | Some im \<Rightarrow> Inr im) = Inr img' \<and>
     ImageOps_equalize L img' = Inr equalizedImage \<and>
     Image_convert L equalizedImage ''L'' = Inr grayImage \<and>
     Image_quantize L grayImage 16 = Inr quant16Image \<and>
     Image_quantize L grayImage 32 = Inr quant32Image \<and>
     featuresSizes L quant16Image = Inr features16 \<and>
     featuresSizes L quant32Image = Inr features32 \<and>
     v = features16 @ features32"
  using assms unfolding featuresFile_def by (auto split: sum.splits)



subsection \<open>The stand-in\<close>

lemma stand_in_shapes: "skimage_shapes (stand_in opener scandir)"
  by (auto simp add: skimage_shapes_def stand_in_def)


lemma stand_in_computeFeatures:
  "computeFeatures (stand_in opener scandir) (c, w) =
     Inr (map (\<lambda>n. of_nat (((1000 * c + w) * 100 + n) * 10 + 1)) [0..<20] @
          map (\<lambda>n. of_nat (((1000 * c + w) * 100 + n) * 10 + 2)) [0..<20] @
          map (\<lambda>n. of_nat (((1000 * c + w) * 100 + n) * 10 + 3)) [0..<20])"
proof -
  let ?S = "stand_in opener scandir"
  let ?g = "\<lparr>shape4 = (256, 256, 5, 4),
             item4 = (\<lambda>i j d k. (1000 * c + w) * 100 + (4 * d + k))\<rparr> :: nat ndarray4"
  have u: "[0..<20] = [0, 1, 2, 3, 4, 5, 6, 7, 8, 9, 10, 11, 12, 13, 14, 15, 16, 17, 18, 19]"
    by (simp add: upt_rec)
  have np: "np_array_uint8 ?S (c, w) = Inr (c, w)"
    by (simp add: stand_in_def)
  have gm: "graycomatrix ?S (c, w) [1, 2, 4, 8, 16] [0, pi / 4, pi / 2, 3 * pi / 4] 256 = Inr ?g"
    by (simp add: stand_in_def)
  have gp: "graycoprops ?S ?g name =
      Inr \<lparr>shape2 = (5, 4),
           item2 = (\<lambda>d k. of_nat (item4 ?g 0 0 d k * 10 + (if name = ''contrast'' then 1 else 2)))\<rparr>"
    for name by (simp add: stand_in_def)
  have se: "shannon_entropy ?S s = of_nat (item2 s 0 0 * 10 + 3)" for s
    by (simp add: stand_in_def)
  have e: "glcmEntropy ?S ?g =
     Inr (concat (map (\<lambda>i. map (\<lambda>j. shannon_entropy ?S (the_slice ?g i j)) [0..<4]) [0..<5]))"
    by (rule glcmEntropy_Inr) simp_all
  show ?thesis
    unfolding computeFeatures_def
    by (simp only: np gm gp e sum.case)
      (simp add: se hstack_def the_slice_def u upt_0_4 upt_0_5)
qed

lemma stand_in_featuresFile:
  assumes "(case img of None \<Rightarrow> opener path | Some im \<Rightarrow> Inr im) = Inr (c, w)"
  shows "featuresFile (stand_in opener scandir) path img = Inr stand_in_vector"
proof -
  have o: "Image_open (stand_in opener scandir) = opener"
    by (simp add: stand_in_def)
  have r: "Image_resize (stand_in opener scandir) im size = Inr (fst im, fst size)" for im size
    by (simp add: stand_in_def)
  have q: "Image_quantize (stand_in opener scandir) im colors = Inr (colors, snd im)" for im colors
    by (simp add: stand_in_def)
  have e: "ImageOps_equalize (stand_in opener scandir) im = Inr im" for im
    by (simp add: stand_in_def)
  have g: "Image_convert (stand_in opener scandir) im mode = Inr im" for im mode
    by (simp add: stand_in_def)
  have a: "(case img of None \<Rightarrow> Image_open (stand_in opener scandir) path | Some im \<Rightarrow> Inr im)
      = Inr (c, w)"
    using assms by (simp only: o)
  show ?thesis
    unfolding featuresFile_def featuresSizes_def stand_in_vector_def
    by (simp add: a r q e g stand_in_computeFeatures)
qed

lemma glcmEntropy_slices:
  assumes "5 \<le> fst (snd (snd (shape4 glcm)))" "4 \<le> snd (snd (snd (shape4 glcm)))"
  shows "\<exists>entropy. glcmEntropy L glcm = Inr entropy \<and> length entropy = 20 \<and>
     (\<forall>i<5. \<forall>j<4. \<exists>s. slice_last2 glcm i j = Inr s \<and>
        entropy ! (4 * i + j) = shannon_entropy L s)"
proof -
  let ?e = "concat (map (\<lambda>i. map (\<lambda>j. shannon_entropy L (the_slice glcm i j)) [0..<4]) [0..<5])"
  have e: "glcmEntropy L glcm = Inr ?e" using assms by (rule glcmEntropy_Inr)
  have l: "length ?e = 20" by (simp add: length_concat_grid)
  have n: "\<exists>s. slice_last2 glcm i j = Inr s \<and> ?e ! (4 * i + j) = shannon_entropy L s"
    if "i < 5" "j < 4" for i j
  proof -
    have "slice_last2 glcm i j = Inr (the_slice glcm i j)"
      unfolding the_slice_def using that assms by (intro slice_last2_Inr) simp_all
    moreover have "?e ! (4 * i + j) = shannon_entropy L (the_slice glcm i j)"
      using that by (rule nth_concat_grid)
    ultimately show ?thesis by blast
  qed
  from e l n show ?thesis by blast
qed

lemma computeFeatures_scale_blocks:
  assumes L: "skimage_shapes L" and fs: "computeFeatures L img = Inr fs"
  shows "scale_blocks L img fs"
proof -
  from computeFeatures_Inr_D [OF L fs]
  obtain numpyImage glcm and contrast homogeneity :: "real ndarray2" where
    a: "np_array_uint8 L img = Inr numpyImage"
    and g: "graycomatrix L numpyImage [1, 2, 4, 8, 16] [0, pi / 4, pi / 2, 3 * pi / 4] 256 = Inr glcm"
    and sg: "shape4 glcm = (256, 256, 5, 4)"
    and c: "graycoprops L glcm ''contrast'' = Inr contrast"
    and h: "graycoprops L glcm ''homogeneity'' = Inr homogeneity"
    and v: "fs = [item2 contrast d a. d \<leftarrow> [0..<5], a \<leftarrow> [0..<4]] @
          [item2 homogeneity d a. d \<leftarrow> [0..<5], a \<leftarrow> [0..<4]] @
          [shannon_entropy L (the_slice glcm d a). d \<leftarrow> [0..<5], a \<leftarrow> [0..<4]]"
    by blast
  let ?e = "[shannon_entropy L (the_slice glcm d a). d \<leftarrow> [0..<5], a \<leftarrow> [0..<4]]"
  have e: "glcmEntropy L glcm = Inr ?e" by (rule glcmEntropy_Inr) (simp_all add: sg)
  have l: "length ?e = 20" by (simp add: length_concat_grid)
  from a g c h e l v show ?thesis unfolding scale_blocks_def by blast
qed





text \<open>
  Claim C3. glcmEntropy loops over \<open>i < 5\<close> and \<open>j < 4\<close> whatever the shape of the matrix
  is: for a matrix with at least 5 distances and 4 angles it returns exactly 20 values,
  the one at position \<open>4 * i + j\<close> being the Shannon entropy of the slice
  \<open>glcm[:, :, i, j]\<close>, and for a matrix with fewer it raises \<open>IndexError\<close>. What
  computeFeatures returns is 20 contrast values, then 20 homogeneity values, each block
  one \<open>graycoprops\<close> result, then these 20 entropy values: 60 values.
\<close>

theorem computeFeatures_blocks:
  "(5 \<le> fst (snd (snd (shape4 glcm))) \<and> 4 \<le> snd (snd (snd (shape4 glcm))) \<longrightarrow>
      (\<exists>entropy. glcmEntropy L glcm = Inr entropy \<and> length entropy = 20 \<and>
         (\<forall>i<5. \<forall>j<4. \<exists>s. slice_last2 glcm i j = Inr s \<and>
            entropy ! (4 * i + j) = shannon_entropy L s))) \<and>
   (fst (snd (snd (shape4 glcm))) < 5 \<or> snd (snd (snd (shape4 glcm))) < 4 \<longrightarrow>
      glcmEntropy L glcm = Inl IndexError) \<and>
   (skimage_shapes L \<and> computeFeatures L img = Inr fs \<longrightarrow>
      scale_blocks L img fs \<and> length fs = 60)"
  using glcmEntropy_slices [of glcm L] glcmEntropy_Inl [of glcm L]
    computeFeatures_scale_blocks [of L img fs] computeFeatures_length [of L img fs]
  by blast

theorem computeFeatures_blocks_witness:
  "(\<exists>entropy.
      glcmEntropy (stand_in open_any no_folders)
        \<lparr>shape4 = (256, 256, 7, 6), item4 = (\<lambda>i j d k. 10 * d + k)\<rparr> = Inr entropy \<and>
      length entropy = 20) \<and>
   glcmEntropy (stand_in open_any no_folders)
     \<lparr>shape4 = (256, 256, 5, 3), item4 = (\<lambda>i j d k. 10 * d + k)\<rparr> = Inl IndexError \<and>
   skimage_shapes (stand_in open_any no_folders) \<and>
   computeFeatures (stand_in open_any no_folders) (16, 32) =
     Inr (map (\<lambda>n. of_nat (16032000 + 10 * n + 1)) [0..<20] @
          map (\<lambda>n. of_nat (16032000 + 10 * n + 2)) [0..<20] @
          map (\<lambda>n. of_nat (16032000 + 10 * n + 3)) [0..<20]) \<and>
   scale_blocks (stand_in open_any no_folders) (16, 32)
     (map (\<lambda>n. of_nat (16032000 + 10 * n + 1)) [0..<20] @
      map (\<lambda>n. of_nat (16032000 + 10 * n + 2)) [0..<20] @
      map (\<lambda>n. of_nat (16032000 + 10 * n + 3)) [0..<20])"
proof -
  let ?S = "stand_in open_any no_folders"
  let ?fs = "map (\<lambda>n. of_nat (16032000 + 10 * n + 1)) [0..<20] @
      map (\<lambda>n. of_nat (16032000 + 10 * n + 2)) [0..<20] @
      map (\<lambda>n. of_nat (16032000 + 10 * n + 3)) [0..<20] :: real list"
  have c: "computeFeatures ?S (16, 32) = Inr ?fs"
    by (simp add: stand_in_computeFeatures)
  note a = computeFeatures_blocks
    [of "\<lparr>shape4 = (256, 256, 7, 6), item4 = (\<lambda>i j d k. 10 * d + k)\<rparr>" ?S "(16, 32)" ?fs]
  note b = computeFeatures_blocks
    [of "\<lparr>shape4 = (256, 256, 5, 3), item4 = (\<lambda>i j d k. 10 * d + k)\<rparr>" ?S "(16, 32)" ?fs]
  have 1: "\<exists>entropy.
      glcmEntropy ?S \<lparr>shape4 = (256, 256, 7, 6), item4 = (\<lambda>i j d k. 10 * d + k)\<rparr> = Inr entropy \<and>
      length entropy = 20"
    using a by simp blast
  have 2: "glcmEntropy ?S \<lparr>shape4 = (256, 256, 5, 3), item4 = (\<lambda>i j d k. 10 * d + k)\<rparr> = Inl IndexError"
    using b by simp
  have 3: "scale_blocks ?S (16, 32) ?fs"
    using a c stand_in_shapes [of open_any no_folders] by blast
  from 1 2 3 c stand_in_shapes [of open_any no_folders] show ?thesis by blast
qed


text \<open>
  Claim C4. A vector that featuresFile returns is the concatenation of six blocks of 60
  values: the image quantized to 16 colours at the sizes 32, 64 and 128, then the image
  quantized to 32 colours at the sizes 32, 64 and 128; each block is the contrast, then
  the homogeneity, then the entropy values of that image.
\<close>

theorem featuresFile_order:
  assumes L: "skimage_shapes L" and v: "featuresFile L path img = Inr v"
  shows "\<exists>img' equalizedImage grayImage quant16Image quant32Image
            a32 a64 a128 b32 b64 b128 f1 f2 f3 f4 f5 f6.
     (case img of None \<Rightarrow> Image_open L path | Some im \<Rightarrow> Inr im) = Inr img' \<and>
     ImageOps_equalize L img' = Inr equalizedImage \<and>
     Image_convert L equalizedImage ''L'' = Inr grayImage \<and>
     Image_quantize L grayImage 16 = Inr quant16Image \<and>
     Image_quantize L grayImage 32 = Inr quant32Image \<and>
     Image_resize L quant16Image (32, 32) = Inr a32 \<and>
     Image_resize L quant16Image (64, 64) = Inr a64 \<and>
     Image_resize L quant16Image (128, 128) = Inr a128 \<and>
     Image_resize L quant32Image (32, 32) = Inr b32 \<and>
     Image_resize L quant32Image (64, 64) = Inr b64 \<and>
     Image_resize L quant32Image (128, 128) = Inr b128 \<and>
     computeFeatures L a32 = Inr f1 \<and> scale_blocks L a32 f1 \<and> length f1 = 60 \<and>
     computeFeatures L a64 = Inr f2 \<and> scale_blocks L a64 f2 \<and> length f2 = 60 \<and>
     computeFeatures L a128 = Inr f3 \<and> scale_blocks L a128 f3 \<and> length f3 = 60 \<and>
     computeFeatures L b32 = Inr f4 \<and> scale_blocks L b32 f4 \<and> length f4 = 60 \<and>
     computeFeatures L b64 = Inr f5 \<and> scale_blocks L b64 f5 \<and> length f5 = 60 \<and>
     computeFeatures L b128 = Inr f6 \<and> scale_blocks L b128 f6 \<and> length f6 = 60 \<and>
     v = f1 @ f2 @ f3 @ f4 @ f5 @ f6"
proof -
  from featuresFile_Inr_D [OF v]
  obtain img' equalizedImage grayImage quant16Image quant32Image features16 features32 where
    o: "(case img of None \<Rightarrow> Image_open L path | Some im \<Rightarrow> Inr im) = Inr img'"
      "ImageOps_equalize L img' = Inr equalizedImage"
      "Image_convert L equalizedImage ''L'' = Inr grayImage"
      "Image_quantize L grayImage 16 = Inr quant16Image"
      "Image_quantize L grayImage 32 = Inr quant32Image"
    and s16: "featuresSizes L quant16Image = Inr features16"
    and s32: "featuresSizes L quant32Image = Inr features32"
    and vv: "v = features16 @ features32"
    by blast
  from featuresSizes_Inr_D [OF s16]
  obtain a32 a64 a128 f1 f2 f3 where
    a: "Image_resize L quant16Image (32, 32) = Inr a32"
      "Image_resize L quant16Image (64, 64) = Inr a64"
      "Image_resize L quant16Image (128, 128) = Inr a128"
    and fa: "computeFeatures L a32 = Inr f1" "computeFeatures L a64 = Inr f2"
      "computeFeatures L a128 = Inr f3"
    and va: "features16 = f1 @ f2 @ f3"
    by blast
  from featuresSizes_Inr_D [OF s32]
  obtain b32 b64 b128 f4 f5 f6 where
    b: "Image_resize L quant32Image (32, 32) = Inr b32"
      "Image_resize L quant32Image (64, 64) = Inr b64"
      "Image_resize L quant32Image (128, 128) = Inr b128"
    and fb: "computeFeatures L b32 = Inr f4" "computeFeatures L b64 = Inr f5"
      "computeFeatures L b128 = Inr f6"
    and vb: "features32 = f4 @ f5 @ f6"
    by blast
  note sa = fa [THEN computeFeatures_scale_blocks [OF L]]
  note sb = fb [THEN computeFeatures_scale_blocks [OF L]]
  note la = fa [THEN computeFeatures_length [OF L]]
  note lb = fb [THEN computeFeatures_length [OF L]]
  have "v = f1 @ f2 @ f3 @ f4 @ f5 @ f6" by (simp add: vv va vb)
  with o a b fa fb sa sb la lb show ?thesis by blast
qed


theorem featuresFile_order_witness:
  "skimage_shapes (stand_in open_any no_folders) \<and>
   featuresFile (stand_in open_any no_folders) (Some ''imgs/1/a.png'') None = Inr stand_in_vector \<and>
   (\<exists>f1 f2 f3 f4 f5 f6.
      computeFeatures (stand_in open_any no_folders) (16, 32) = Inr f1 \<and> length f1 = 60 \<and>
      computeFeatures (stand_in open_any no_folders) (16, 64) = Inr f2 \<and> length f2 = 60 \<and>
      computeFeatures (stand_in open_any no_folders) (16, 128) = Inr f3 \<and> length f3 = 60 \<and>
      computeFeatures (stand_in open_any no_folders) (32, 32) = Inr f4 \<and> length f4 = 60 \<and>
      computeFeatures (stand_in open_any no_folders) (32, 64) = Inr f5 \<and> length f5 = 60 \<and>
      computeFeatures (stand_in open_any no_folders) (32, 128) = Inr f6 \<and> length f6 = 60 \<and>
      stand_in_vector = f1 @ f2 @ f3 @ f4 @ f5 @ f6)"
proof -
  let ?S = "stand_in open_any no_folders"
  have v: "featuresFile ?S (Some ''imgs/1/a.png'') None = Inr stand_in_vector"
    by (rule stand_in_featuresFile [where c = 256 and w = 200]) (simp add: open_any_def)
  have eqs: "Image_quantize ?S im colors = Inr (colors, snd im)"
    "Image_resize ?S im size = Inr (fst im, fst size)" for im colors size
    by (simp_all add: stand_in_def)
  from featuresFile_order [OF stand_in_shapes v]
  have "\<exists>f1 f2 f3 f4 f5 f6.
      computeFeatures ?S (16, 32) = Inr f1 \<and> length f1 = 60 \<and>
      computeFeatures ?S (16, 64) = Inr f2 \<and> length f2 = 60 \<and>
      computeFeatures ?S (16, 128) = Inr f3 \<and> length f3 = 60 \<and>
      computeFeatures ?S (32, 32) = Inr f4 \<and> length f4 = 60 \<and>
      computeFeatures ?S (32, 64) = Inr f5 \<and> length f5 = 60 \<and>
      computeFeatures ?S (32, 128) = Inr f6 \<and> length f6 = 60 \<and>
      stand_in_vector = f1 @ f2 @ f3 @ f4 @ f5 @ f6"
    unfolding eqs by (elim exE conjE) auto
  with v stand_in_shapes [of open_any no_folders] show ?thesis by blast
qed

section \<open>The loader\<close>

lemma progress_calls_0 [simp]: "progress_calls n 0 = []"
  by (simp add: progress_calls_def)

lemma progress_calls_Suc:
  "progress_calls n (Suc k) =
     [ProgressBar_value (progress_percent (n + 1)), Update_idletasks,
      Text_set (progress_text (n + 1))] @ progress_calls (n + 1) k"
proof -
  have "[n + 1..<n + Suc k + 1] = (n + 1) # [n + 1 + 1..<n + 1 + k + 1]"
    by (subst upt_conv_Cons) simp_all
  then show ?thesis unfolding progress_calls_def by (simp only: list.map concat.simps)
qed

lemma progress_calls_add:
  "progress_calls n (a + b) = progress_calls n a @ progress_calls (n + a) b"
proof (induction a arbitrary: n)
  case 0
  show ?case by simp
next
  case (Suc a)
  have "progress_calls n (Suc (a + b)) =
     [ProgressBar_value (progress_percent (n + 1)), Update_idletasks,
      Text_set (progress_text (n + 1))] @ progress_calls (n + 1) (a + b)"
    by (rule progress_calls_Suc)
  then show ?case by (simp add: Suc.IH progress_calls_Suc)
qed

lemma featuresFolder_files_append:
  "featuresFolder_files L i (xs @ ys) st scr =
     (case featuresFolder_files L i xs st scr of
        (scr', Inl e) \<Rightarrow> (scr', Inl e)
      | (scr', Inr st') \<Rightarrow> featuresFolder_files L i ys st' scr')"
  by (induction xs arbitrary: st scr) (simp_all add: Let_def split: sum.splits)

lemma featuresFolder_dirs_append:
  "featuresFolder_dirs L (xs @ ys) st scr =
     (case featuresFolder_dirs L xs st scr of
        (scr', Inl e) \<Rightarrow> (scr', Inl e)
      | (scr', Inr st') \<Rightarrow> featuresFolder_dirs L ys st' scr')"
  by (induction xs arbitrary: st scr) (simp_all split: sum.splits prod.splits)

lemma featuresFolder_files_ok:
  assumes "\<forall>f\<in>set (png_files files). \<not> isl (featuresFile L (Some (entry_path f)) None)"
  shows "featuresFolder_files L i files st scr =
     (scr @ progress_calls (imgCount st) (length (png_files files)),
      Inr \<lparr>features = features st @
              map (\<lambda>f. projr (featuresFile L (Some (entry_path f)) None)) (png_files files),
           types = types st @ replicate (length (png_files files)) i,
           imgCount = imgCount st + length (png_files files)\<rparr>)"
  using assms
proof (induction files arbitrary: st scr)
  case Nil
  show ?case by (simp add: png_files_def)
next
  case (Cons entry rest)
  show ?case
  proof (cases "endswith (entry_path entry) ''.png'' \<and> entry_is_file entry")
    case True
    then have p: "png_files (entry # rest) = entry # png_files rest" by (simp add: png_files_def)
    with Cons.prems obtain fv where fv: "featuresFile L (Some (entry_path entry)) None = Inr fv"
      by (cases "featuresFile L (Some (entry_path entry)) None") auto
    from Cons.prems p have r: "\<forall>f\<in>set (png_files rest). \<not> isl (featuresFile L (Some (entry_path f)) None)"
      by simp
    show ?thesis
      using True by (simp add: p fv Let_def Cons.IH [OF r] progress_calls_Suc replicate_app_Cons_same)
  next
    case False
    then have p: "png_files (entry # rest) = png_files rest" by (auto simp add: png_files_def)
    with Cons.prems have r: "\<forall>f\<in>set (png_files rest). \<not> isl (featuresFile L (Some (entry_path f)) None)"
      by simp
    show ?thesis using False by (auto simp add: p Cons.IH [OF r])
  qed
qed

lemma featuresFolder_files_first_error:
  assumes "\<forall>g\<in>set (png_files pre). \<not> isl (featuresFile L (Some (entry_path g)) None)"
    and "endswith (entry_path f) ''.png''" "entry_is_file f"
    and "featuresFile L (Some (entry_path f)) None = Inl e"
  shows "featuresFolder_files L i (pre @ f # post) st scr =
     (scr @ progress_calls (imgCount st) (length (png_files pre)), Inl e)"
  by (simp add: featuresFolder_files_append featuresFolder_files_ok [OF assms(1)] assms(2-4))

lemma featuresFolder_files_Inr_D:
  "featuresFolder_files L i files st scr = (scr', Inr st') \<Longrightarrow>
   \<forall>f\<in>set (png_files files). \<not> isl (featuresFile L (Some (entry_path f)) None)"
proof (induction files arbitrary: st scr)
  case Nil
  show ?case by (simp add: png_files_def)
next
  case (Cons entry rest)
  then show ?case
    by (auto simp add: png_files_def Let_def split: if_splits sum.splits)
qed

lemma featuresFolder_files_Inl_D:
  "featuresFolder_files L i files st scr = (scr', Inl e) \<Longrightarrow>
   \<exists>g\<in>set (png_files files). featuresFile L (Some (entry_path g)) None = Inl e"
proof (induction files arbitrary: st scr)
  case Nil
  then show ?case by simp
next
  case (Cons entry rest)
  then show ?case
    by (auto simp add: png_files_def Let_def split: if_splits sum.splits)
qed




lemma featuresFolder_dirs_ok:
  assumes "\<forall>i\<in>set is. os_scandir L (folder i) = Inr (dir i)"
    and "\<forall>i\<in>set is. \<forall>f\<in>set (png_files (dir i)).
           \<not> isl (featuresFile L (Some (entry_path f)) None)"
  shows "featuresFolder_dirs L is st scr =
     (scr @ progress_calls (imgCount st) (length (concat (map (\<lambda>i. png_files (dir i)) is))),
      Inr \<lparr>features = features st @
              concat (map (\<lambda>i. map (\<lambda>f. projr (featuresFile L (Some (entry_path f)) None))
                                  (png_files (dir i))) is),
           types = types st @ concat (map (\<lambda>i. replicate (length (png_files (dir i))) i) is),
           imgCount = imgCount st + length (concat (map (\<lambda>i. png_files (dir i)) is))\<rparr>)"
  using assms
proof (induction "is" arbitrary: st scr)
  case Nil
  show ?case by simp
next
  case (Cons i "is")
  from Cons.prems have sc: "os_scandir L (folder i) = Inr (dir i)"
    and ok: "\<forall>f\<in>set (png_files (dir i)). \<not> isl (featuresFile L (Some (entry_path f)) None)"
    and rest: "\<forall>i\<in>set is. os_scandir L (folder i) = Inr (dir i)"
      "\<forall>i\<in>set is. \<forall>f\<in>set (png_files (dir i)).
           \<not> isl (featuresFile L (Some (entry_path f)) None)"
    by simp_all
  show ?case
    by (simp add: sc featuresFolder_files_ok [OF ok] Cons.IH [OF rest] progress_calls_add)
qed

lemma featuresFolder_dirs_first_error:
  assumes "\<forall>j\<in>set before. os_scandir L (folder j) = Inr (dir j)"
    and "\<forall>j\<in>set before. \<forall>g\<in>set (png_files (dir j)).
           \<not> isl (featuresFile L (Some (entry_path g)) None)"
    and "os_scandir L (folder i) = Inr (pre @ f # post)"
    and "\<forall>g\<in>set (png_files pre). \<not> isl (featuresFile L (Some (entry_path g)) None)"
    and "endswith (entry_path f) ''.png''" "entry_is_file f"
    and "featuresFile L (Some (entry_path f)) None = Inl e"
  shows "featuresFolder_dirs L (before @ i # after) st scr =
     (scr @ progress_calls (imgCount st)
        (length (concat (map (\<lambda>j. png_files (dir j)) before)) + length (png_files pre)),
      Inl e)"
  by (simp add: featuresFolder_dirs_append featuresFolder_dirs_ok [OF assms(1,2)] assms(3)
      featuresFolder_files_first_error [OF assms(4-7)] progress_calls_add)

lemma featuresFolder_dirs_Inr_D:
  "featuresFolder_dirs L is st scr = (scr', Inr st') \<Longrightarrow> j \<in> set is \<Longrightarrow>
   \<exists>fs. os_scandir L (folder j) = Inr fs \<and>
     (\<forall>g\<in>set (png_files fs). \<not> isl (featuresFile L (Some (entry_path g)) None))"
proof (induction "is" arbitrary: st scr)
  case Nil
  then show ?case by simp
next
  case (Cons i "is")
  from Cons.prems(1) obtain fs where sc: "os_scandir L (folder i) = Inr fs"
    by (cases "os_scandir L (folder i)") simp_all
  obtain scr1 r1 where r: "featuresFolder_files L i fs st scr = (scr1, r1)"
    by (cases "featuresFolder_files L i fs st scr")
  from Cons.prems(1) sc r obtain st1 where r1: "r1 = Inr st1"
    and next_: "featuresFolder_dirs L is st1 scr1 = (scr', Inr st')"
    by (cases r1) simp_all
  show ?case
  proof (cases "j = i")
    case True
    from r r1 have "\<forall>g\<in>set (png_files fs). \<not> isl (featuresFile L (Some (entry_path g)) None)"
      by (intro featuresFolder_files_Inr_D [of L i fs st scr scr1 st1]) simp
    with sc True show ?thesis by blast
  next
    case False
    with Cons.prems(2) have "j \<in> set is" by simp
    with next_ show ?thesis using Cons.IH by blast
  qed
qed

lemma featuresFolder_dirs_Inl_D:
  "featuresFolder_dirs L is st scr = (scr', Inl e) \<Longrightarrow>
   (\<exists>j\<in>set is. os_scandir L (folder j) = Inl e) \<or>
   (\<exists>j\<in>set is. \<exists>fs g. os_scandir L (folder j) = Inr fs \<and> g \<in> set (png_files fs) \<and>
      featuresFile L (Some (entry_path g)) None = Inl e)"
proof (induction "is" arbitrary: st scr)
  case Nil
  then show ?case by simp
next
  case (Cons i "is")
  show ?case
  proof (cases "os_scandir L (folder i)")
    case (Inl e')
    with Cons.prems have "e' = e" by simp
    with Inl show ?thesis by simp
  next
    case (Inr fs)
    obtain scr1 r1 where r: "featuresFolder_files L i fs st scr = (scr1, r1)"
      by (cases "featuresFolder_files L i fs st scr")
    show ?thesis
    proof (cases r1)
      case (Inl e')
      with Cons.prems Inr r have "e' = e" by simp
      with Inl r have "featuresFolder_files L i fs st scr = (scr1, Inl e)" by simp
      from featuresFolder_files_Inl_D [OF this] Inr show ?thesis by auto
    next
      case (Inr st1)
      with Cons.prems \<open>os_scandir L (folder i) = Inr fs\<close> r
      have "featuresFolder_dirs L is st1 scr1 = (scr', Inl e)" by simp
      from Cons.IH [OF this] show ?thesis by auto
    qed
  qed
qed

lemma upt_1_5: "[1..<5] = [1, 2, 3, 4]"
  by (simp add: upt_rec)

lemma folder_1_4:
  "folder 1 = ''imgs/1/''" "folder 2 = ''imgs/2/''" "folder 3 = ''imgs/3/''" "folder 4 = ''imgs/4/''"
  by (simp_all add: folder_def)

lemma folder_Suc_0: "folder (Suc 0) = ''imgs/1/''"
  by (simp add: folder_def)

lemma stand_in_open_any_featuresFile:
  "featuresFile (stand_in open_any scandir) (Some p) None = Inr stand_in_vector"
  by (rule stand_in_featuresFile [where c = 256 and w = 200]) (simp add: open_any_def)

lemma stand_in_os_scandir: "os_scandir (stand_in opener scandir) = scandir"
  by (simp add: stand_in_def)

lemma set_upt_1_5: "set [1..<5] = {1, 2, 3, 4 :: nat}"
  by (auto simp add: upt_1_5)

lemma zip_map_replicate:
  "zip (map g xs) (replicate (length xs) i) = map (\<lambda>f. (g f, i)) xs"
  by (induction xs) simp_all

lemma zip_concat_labels:
  "zip (concat (map (\<lambda>i. map g (xs i)) is))
       (concat (map (\<lambda>i. replicate (length (xs i)) i) is)) =
   concat (map (\<lambda>i. map (\<lambda>f. (g f, i)) (xs i)) is)"
  by (induction "is") (simp_all add: zip_map_replicate)

lemma featuresFolder_Inr_D:
  assumes "snd (featuresFolder L screen) = Inr (fs, ts)"
  shows "\<exists>scr st. featuresFolder_dirs L [1..<5] \<lparr>features = [], types = [], imgCount = 0\<rparr> screen
            = (scr, Inr st) \<and> fs = features st \<and> ts = types st"
proof -
  obtain scr r where r: "featuresFolder_dirs L [1..<5] \<lparr>features = [], types = [], imgCount = 0\<rparr> screen
      = (scr, r)"
    by (cases "featuresFolder_dirs L [1..<5] \<lparr>features = [], types = [], imgCount = 0\<rparr> screen")
  with assms show ?thesis by (cases r) (simp_all add: featuresFolder_def)
qed

lemma featuresFolder_ok:
  assumes "\<forall>i\<in>{1, 2, 3, 4}. os_scandir L (folder i) = Inr (dir i)"
    and "\<forall>i\<in>{1, 2, 3, 4}. \<forall>f\<in>set (png_files (dir i)).
           \<not> isl (featuresFile L (Some (entry_path f)) None)"
  shows "featuresFolder L screen =
     (screen @ progress_calls 0 (length (concat (map (\<lambda>i. png_files (dir i)) [1..<5]))),
      Inr (concat (map (\<lambda>i. map (\<lambda>f. projr (featuresFile L (Some (entry_path f)) None))
                                  (png_files (dir i))) [1..<5]),
           concat (map (\<lambda>i. replicate (length (png_files (dir i))) i) [1..<5])))"
proof -
  from assms have a: "\<forall>i\<in>set [1..<5]. os_scandir L (folder i) = Inr (dir i)"
    and b: "\<forall>i\<in>set [1..<5]. \<forall>f\<in>set (png_files (dir i)).
           \<not> isl (featuresFile L (Some (entry_path f)) None)"
    by (simp_all only: set_upt_1_5)
  show ?thesis
    unfolding featuresFolder_def featuresFolder_dirs_ok [OF a b] by simp
qed







text \<open>The quotient is a float: \<open>int((116/400)*100)\<close> is 28, not 29.\<close>

lemma progress_percent_116: "progress_percent 116 = 28"
  by code_simp


lemma length_labelled_files:
  "length (labelled_files dir) = length (concat (map (\<lambda>i. png_files (dir i)) [1..<5]))"
  unfolding labelled_files_def by (simp add: length_concat comp_def)

lemma set_labelled_files:
  "(file, i) \<in> set (labelled_files dir) \<longleftrightarrow> i \<in> {1, 2, 3, 4} \<and> file \<in> set (png_files (dir i))"
  unfolding labelled_files_def set_upt_1_5 [symmetric] by auto

lemma featuresFolder_labelled:
  assumes "\<forall>i\<in>{1, 2, 3, 4}. os_scandir L (folder i) = Inr (dir i)"
    and "\<forall>i\<in>{1, 2, 3, 4}. \<forall>f\<in>set (png_files (dir i)).
           \<not> isl (featuresFile L (Some (entry_path f)) None)"
    and "snd (featuresFolder L screen) = Inr (fs, ts)"
  shows "length fs = length (labelled_files dir)" "length ts = length (labelled_files dir)"
    "map (\<lambda>(v, l). (Inr v, l)) (zip fs ts) =
       map (\<lambda>(file, i). (featuresFile L (Some (entry_path file)) None, i)) (labelled_files dir)"
    "set ts \<subseteq> {1, 2, 3, 4}"
proof -
  let ?g = "\<lambda>f. projr (featuresFile L (Some (entry_path f)) None)"
  from assms(3) have fs: "fs = concat (map (\<lambda>i. map ?g (png_files (dir i))) [1..<5])"
    and ts: "ts = concat (map (\<lambda>i. replicate (length (png_files (dir i))) i) [1..<5])"
    unfolding featuresFolder_ok [OF assms(1,2)] by simp_all
  show "length fs = length (labelled_files dir)"
    unfolding fs length_labelled_files by (simp add: length_concat comp_def)
  show "length ts = length (labelled_files dir)"
    unfolding ts length_labelled_files by (simp add: length_concat comp_def)
  have z: "zip fs ts = map (\<lambda>(file, i). (?g file, i)) (labelled_files dir)"
    unfolding fs ts zip_concat_labels labelled_files_def
    by (simp add: map_concat comp_def)
  have "map (\<lambda>(v, l). (Inr v, l)) (map (\<lambda>(file, i). (?g file, i)) (labelled_files dir)) =
       map (\<lambda>(file, i). (featuresFile L (Some (entry_path file)) None, i)) (labelled_files dir)"
    using assms(2) by (auto simp add: set_labelled_files)
  then show "map (\<lambda>(v, l). (Inr v, l)) (zip fs ts) =
       map (\<lambda>(file, i). (featuresFile L (Some (entry_path file)) None, i)) (labelled_files dir)"
    by (simp only: z)
  show "set ts \<subseteq> {1, 2, 3, 4}"
    unfolding ts set_upt_1_5 [symmetric] by auto
qed

lemma demo_tree_folders:
  "\<forall>i\<in>{1, 2, 3, 4}. os_scandir (stand_in open_any demo_tree) (folder i)
      = Inr (projr (demo_tree (folder i)))"
  by (simp add: stand_in_os_scandir folder_1_4 folder_Suc_0 demo_tree_def)

lemma demo_tree_labelled_files:
  "labelled_files (\<lambda>i. projr (demo_tree (folder i))) =
     [(\<lparr>entry_path = ''imgs/1/a.png'', entry_is_file = True\<rparr>, 1),
      (\<lparr>entry_path = ''imgs/2/b.png'', entry_is_file = True\<rparr>, 2),
      (\<lparr>entry_path = ''imgs/4/c.png'', entry_is_file = True\<rparr>, 4),
      (\<lparr>entry_path = ''imgs/4/d.png'', entry_is_file = True\<rparr>, 4)]"
  unfolding labelled_files_def upt_1_5
  by (simp add: folder_1_4 folder_Suc_0 demo_tree_def png_files_def endswith_def)

lemma corrupt_tree_folders:
  "os_scandir (stand_in open_sound corrupt_tree) (folder 1) =
     Inr [\<lparr>entry_path = ''imgs/1/a.png'', entry_is_file = True\<rparr>]"
  "os_scandir (stand_in open_sound corrupt_tree) (folder 2) =
     Inr ([\<lparr>entry_path = ''imgs/2/b.png'', entry_is_file = True\<rparr>] @
          \<lparr>entry_path = ''imgs/2/corrupt.png'', entry_is_file = True\<rparr> #
          [\<lparr>entry_path = ''imgs/2/e.png'', entry_is_file = True\<rparr>])"
  by (simp_all add: stand_in_os_scandir folder_1_4 folder_Suc_0 corrupt_tree_def)

lemma stand_in_open_sound_featuresFile:
  "\<not> endswith p ''corrupt.png'' \<Longrightarrow>
   featuresFile (stand_in open_sound scandir) (Some p) None = Inr stand_in_vector"
  by (rule stand_in_featuresFile [where c = 256 and w = 200]) (simp add: open_sound_def)

lemma stand_in_open_sound_corrupt:
  "endswith p ''corrupt.png'' \<Longrightarrow>
   featuresFile (stand_in open_sound scandir) (Some p) None = Inl OSError"
  by (simp add: featuresFile_def stand_in_def open_sound_def)

lemma upt_split_1_5:
  assumes "i \<in> {1, 2, 3, 4 :: nat}"
  shows "[1..<5] = [1..<i] @ i # [i + 1..<5]"
proof -
  from assms have "i = 1 \<or> i = 2 \<or> i = 3 \<or> i = 4" by simp
  then show ?thesis by (elim disjE) (simp_all add: upt_rec)
qed









subsection \<open>The claims about featuresFolder\<close>

text \<open>
  Claim C6, amended. Let \<open>dir\<close> list the four folders imgs/1/ to imgs/4/. Whenever
  featuresFolder returns, it returns one feature vector and one label for each .png file
  of the four folders, in the order of enumeration (folder 1 to 4, each in scan order): the
  k-th vector is what featuresFile returns for the k-th file and the k-th label is the
  number of that file's folder, so every label is 1, 2, 3 or 4. It does return whenever
  featuresFile returns a vector for each of these files.
\<close>

theorem featuresFolder_pairs:
  assumes "\<forall>i\<in>{1, 2, 3, 4}. os_scandir L (folder i) = Inr (dir i)"
  shows "(\<forall>fs ts. snd (featuresFolder L screen) = Inr (fs, ts) \<longrightarrow>
            length fs = length (labelled_files dir) \<and>
            length ts = length (labelled_files dir) \<and>
            map (\<lambda>(v, l). (Inr v, l)) (zip fs ts) =
              map (\<lambda>(file, i). (featuresFile L (Some (entry_path file)) None, i))
                (labelled_files dir) \<and>
            set ts \<subseteq> {1, 2, 3, 4}) \<and>
         ((\<forall>(file, i)\<in>set (labelled_files dir).
              \<not> isl (featuresFile L (Some (entry_path file)) None)) \<longrightarrow>
          (\<exists>fs ts. snd (featuresFolder L screen) = Inr (fs, ts)))"
proof (intro conjI allI impI)
  fix fs ts
  assume r: "snd (featuresFolder L screen) = Inr (fs, ts)"
  from featuresFolder_Inr_D [OF r] obtain scr st where
    d: "featuresFolder_dirs L [1..<5] \<lparr>features = [], types = [], imgCount = 0\<rparr> screen
          = (scr, Inr st)"
    by blast
  have ok: "\<forall>i\<in>{1, 2, 3, 4}. \<forall>f\<in>set (png_files (dir i)).
           \<not> isl (featuresFile L (Some (entry_path f)) None)"
  proof
    fix i :: nat
    assume i: "i \<in> {1, 2, 3, 4}"
    then have "i \<in> set [1..<5]" by (simp only: set_upt_1_5)
    from featuresFolder_dirs_Inr_D [OF d this] assms i
    show "\<forall>f\<in>set (png_files (dir i)). \<not> isl (featuresFile L (Some (entry_path f)) None)"
      by auto
  qed
  note l = featuresFolder_labelled [OF assms ok r]
  show "length fs = length (labelled_files dir)" by (rule l)
  show "length ts = length (labelled_files dir)" by (rule l)
  show "map (\<lambda>(v, l). (Inr v, l)) (zip fs ts) =
       map (\<lambda>(file, i). (featuresFile L (Some (entry_path file)) None, i)) (labelled_files dir)"
    by (rule l)
  show "set ts \<subseteq> {1, 2, 3, 4}" by (rule l)
next
  assume "\<forall>(file, i)\<in>set (labelled_files dir).
              \<not> isl (featuresFile L (Some (entry_path file)) None)"
  then have ok: "\<forall>i\<in>{1, 2, 3, 4}. \<forall>f\<in>set (png_files (dir i)).
           \<not> isl (featuresFile L (Some (entry_path f)) None)"
    using set_labelled_files [of _ _ dir] by blast
  show "\<exists>fs ts. snd (featuresFolder L screen) = Inr (fs, ts)"
    unfolding featuresFolder_ok [OF assms ok] by simp
qed

theorem featuresFolder_pairs_witness:
  "snd (featuresFolder (stand_in open_any demo_tree) []) =
     Inr ([stand_in_vector, stand_in_vector, stand_in_vector, stand_in_vector], [1, 2, 4, 4])"
proof -
  let ?L = "stand_in open_any demo_tree"
  let ?dir = "\<lambda>i. projr (demo_tree (folder i))"
  note t = featuresFolder_pairs [of ?L ?dir "[]", OF demo_tree_folders]
  have "\<forall>(file, i)\<in>set (labelled_files ?dir).
          \<not> isl (featuresFile ?L (Some (entry_path file)) None)"
    by (simp add: stand_in_open_any_featuresFile)
  with t obtain fs ts where r: "snd (featuresFolder ?L []) = Inr (fs, ts)" by blast
  with t have len: "length fs = length (labelled_files ?dir)"
    "length ts = length (labelled_files ?dir)"
    and z: "map (\<lambda>(v, l). (Inr v, l)) (zip fs ts) =
              map (\<lambda>(file, i). (featuresFile ?L (Some (entry_path file)) None, i))
                (labelled_files ?dir)"
    by blast+
  from z have "map (\<lambda>(v, l). (Inr v :: exn + real list, l)) (zip fs ts) =
     map (\<lambda>(v, l). (Inr v, l))
       [(stand_in_vector, 1), (stand_in_vector, 2), (stand_in_vector, 4), (stand_in_vector, 4)]"
    by (simp add: demo_tree_labelled_files stand_in_open_any_featuresFile)
  then have zz: "zip fs ts =
       [(stand_in_vector, 1), (stand_in_vector, 2), (stand_in_vector, 4), (stand_in_vector, 4)]"
    by (rule map_injective) (auto simp add: inj_on_def)
  from len have "length fs = length ts" by simp
  then have "fs = map fst (zip fs ts)" "ts = map snd (zip fs ts)" by simp_all
  then have "fs = [stand_in_vector, stand_in_vector, stand_in_vector, stand_in_vector]"
    "ts = [1, 2, 4, 4]"
    unfolding zz by simp_all
  with r show ?thesis by simp
qed

text \<open>
  Claim C6 as the specification states it fails: not every folder tree gives pairs. This
  tree has five .png files under the folders 1 to 4, one of which does not open;
  featuresFolder raises \<open>OSError\<close> and returns no pair.
\<close>

theorem featuresFolder_pairs_counterexample:
  "length (png_files (projr (corrupt_tree (folder 1)))) +
   length (png_files (projr (corrupt_tree (folder 2)))) +
   length (png_files (projr (corrupt_tree (folder 3)))) +
   length (png_files (projr (corrupt_tree (folder 4)))) = 5 \<and>
   snd (featuresFolder (stand_in open_sound corrupt_tree) []) = Inl OSError"
proof -
  let ?L = "stand_in open_sound corrupt_tree"
  have fa: "featuresFile ?L (Some ''imgs/1/a.png'') None = Inr stand_in_vector"
    by (rule stand_in_open_sound_featuresFile) (simp add: endswith_def)
  have fb: "featuresFile ?L (Some ''imgs/2/b.png'') None = Inr stand_in_vector"
    by (rule stand_in_open_sound_featuresFile) (simp add: endswith_def)
  have x: "featuresFile ?L (Some ''imgs/2/corrupt.png'') None = Inl OSError"
    by (rule stand_in_open_sound_corrupt) (simp add: endswith_def)
  have "snd (featuresFolder ?L []) = Inl OSError"
    unfolding featuresFolder_def upt_1_5
    by (simp only: featuresFolder_dirs.simps corrupt_tree_folders)
      (simp add: endswith_def fa fb x Let_def)
  moreover have "length (png_files (projr (corrupt_tree (folder 1)))) +
   length (png_files (projr (corrupt_tree (folder 2)))) +
   length (png_files (projr (corrupt_tree (folder 3)))) +
   length (png_files (projr (corrupt_tree (folder 4)))) = 5"
    by (simp add: folder_1_4 folder_Suc_0 corrupt_tree_def png_files_def endswith_def)
  ultimately show ?thesis by simp
qed

text \<open>
  Claim C7. Let featuresFile raise on a .png file \<open>f\<close> of one of the four folders. Then
  featuresFolder raises too: its result is an exception and no list. If moreover \<open>f\<close> is
  the first such file (the folders before list and their .png files give vectors, and so
  do the .png files before \<open>f\<close> in its folder), the exception is the one of \<open>f\<close>, and the
  screen has received the calls for the files before \<open>f\<close> and nothing after them.
\<close>

theorem featuresFolder_fatal:
  assumes "i \<in> {1, 2, 3, 4}"
    and "os_scandir L (folder i) = Inr (pre @ f # post)"
    and "endswith (entry_path f) ''.png''" "entry_is_file f"
    and "featuresFile L (Some (entry_path f)) None = Inl e"
  shows "(\<exists>e'. snd (featuresFolder L screen) = Inl e') \<and>
         ((\<forall>j\<in>set [1..<i]. os_scandir L (folder j) = Inr (dir j) \<and>
              (\<forall>g\<in>set (png_files (dir j)).
                 \<not> isl (featuresFile L (Some (entry_path g)) None))) \<and>
          (\<forall>g\<in>set (png_files pre). \<not> isl (featuresFile L (Some (entry_path g)) None)) \<longrightarrow>
          featuresFolder L screen =
            (screen @ progress_calls 0
               (length (concat (map (\<lambda>j. png_files (dir j)) [1..<i])) + length (png_files pre)),
             Inl e))"
proof (intro conjI impI)
  show "\<exists>e'. snd (featuresFolder L screen) = Inl e'"
  proof (cases "snd (featuresFolder L screen)")
    case (Inl e')
    then show ?thesis by blast
  next
    case (Inr p)
    then have r: "snd (featuresFolder L screen) = Inr (fst p, snd p)" by simp
    from featuresFolder_Inr_D [OF r] obtain scr st where
      d: "featuresFolder_dirs L [1..<5] \<lparr>features = [], types = [], imgCount = 0\<rparr> screen
            = (scr, Inr st)"
      by blast
    from assms(1) have "i \<in> set [1..<5]" by (simp only: set_upt_1_5)
    from featuresFolder_dirs_Inr_D [OF d this] assms(2)
    have "\<forall>g\<in>set (png_files (pre @ f # post)).
            \<not> isl (featuresFile L (Some (entry_path g)) None)"
      by auto
    moreover have "f \<in> set (png_files (pre @ f # post))"
      using assms(3,4) by (simp add: png_files_def)
    ultimately have "\<not> isl (featuresFile L (Some (entry_path f)) None)" by blast
    with assms(5) show ?thesis by simp
  qed
next
  assume h: "(\<forall>j\<in>set [1..<i]. os_scandir L (folder j) = Inr (dir j) \<and>
              (\<forall>g\<in>set (png_files (dir j)).
                 \<not> isl (featuresFile L (Some (entry_path g)) None))) \<and>
          (\<forall>g\<in>set (png_files pre). \<not> isl (featuresFile L (Some (entry_path g)) None))"
  then have a: "\<forall>j\<in>set [1..<i]. os_scandir L (folder j) = Inr (dir j)"
    and b: "\<forall>j\<in>set [1..<i]. \<forall>g\<in>set (png_files (dir j)).
                 \<not> isl (featuresFile L (Some (entry_path g)) None)"
    and c: "\<forall>g\<in>set (png_files pre). \<not> isl (featuresFile L (Some (entry_path g)) None)"
    by blast+
  show "featuresFolder L screen =
            (screen @ progress_calls 0
               (length (concat (map (\<lambda>j. png_files (dir j)) [1..<i])) + length (png_files pre)),
             Inl e)"
    unfolding featuresFolder_def upt_split_1_5 [OF assms(1)]
      featuresFolder_dirs_first_error [OF a b assms(2) c assms(3,4,5)]
    by simp
qed

theorem featuresFolder_fatal_witness:
  "featuresFolder (stand_in open_sound corrupt_tree) [] = (progress_calls 0 2, Inl OSError)"
proof -
  let ?L = "stand_in open_sound corrupt_tree"
  let ?a = "\<lparr>entry_path = ''imgs/1/a.png'', entry_is_file = True\<rparr>"
  let ?b = "\<lparr>entry_path = ''imgs/2/b.png'', entry_is_file = True\<rparr>"
  let ?c = "\<lparr>entry_path = ''imgs/2/corrupt.png'', entry_is_file = True\<rparr>"
  let ?e = "\<lparr>entry_path = ''imgs/2/e.png'', entry_is_file = True\<rparr>"
  have i: "(2 :: nat) \<in> {1, 2, 3, 4}" by simp
  have p: "endswith (entry_path ?c) ''.png''" "entry_is_file ?c" by (simp_all add: endswith_def)
  have x: "featuresFile ?L (Some (entry_path ?c)) None = Inl OSError"
    by (rule stand_in_open_sound_corrupt) (simp add: endswith_def)
  have fa: "featuresFile ?L (Some ''imgs/1/a.png'') None = Inr stand_in_vector"
    by (rule stand_in_open_sound_featuresFile) (simp add: endswith_def)
  have fb: "featuresFile ?L (Some ''imgs/2/b.png'') None = Inr stand_in_vector"
    by (rule stand_in_open_sound_featuresFile) (simp add: endswith_def)
  have u: "[1..<2] = [1 :: nat]" by (simp add: upt_rec)
  have h: "(\<forall>j\<in>set [1..<2]. os_scandir ?L (folder j) = Inr ((\<lambda>j. [?a]) j) \<and>
              (\<forall>g\<in>set (png_files ((\<lambda>j. [?a]) j)).
                 \<not> isl (featuresFile ?L (Some (entry_path g)) None))) \<and>
          (\<forall>g\<in>set (png_files [?b]). \<not> isl (featuresFile ?L (Some (entry_path g)) None))"
    unfolding u using corrupt_tree_folders(1)
    by (simp add: png_files_def endswith_def fa fb)
  have n: "length (concat (map (\<lambda>j. png_files ((\<lambda>j. [?a]) j)) [1..<2])) + length (png_files [?b]) = 2"
    unfolding u by (simp add: png_files_def endswith_def)
  from featuresFolder_fatal [of 2 ?L "[?b]" ?c "[?e]" OSError "[]" "\<lambda>j. [?a]",
      OF i corrupt_tree_folders(2) p x] h
  have "featuresFolder ?L [] =
      ([] @ progress_calls 0
         (length (concat (map (\<lambda>j. png_files ((\<lambda>j. [?a]) j)) [1..<2])) + length (png_files [?b])),
       Inl OSError)"
    by blast
  then show ?thesis by (simp only: n append_Nil)
qed




end
